theory Spec2Isabelle
  imports Main
begin

section \<open>Errors and collaborators\<close>

text \<open>
  Go's \<open>error\<close> values, as far as the sources tell them apart: an error made on the spot
  by \<open>errors.New(msg)\<close>, the API server's "not found" status (the one
  \<open>errors.IsNotFound\<close> recognises), and any other error handed back by a collaborator
  (template resolution, resource mapping, the cluster client).
\<close>

datatype error = errors_New string | NotFound | Other string

fun errors_IsNotFound :: "error \<Rightarrow> bool" where
  "errors_IsNotFound NotFound = True"
| "errors_IsNotFound _ = False"

section \<open>Collector command builders\<close>

subsection \<open>Data\<close>

text \<open>
  The fields the two builders read. \<open>Name\<close>, \<open>Namespace\<close> and \<open>Selector\<close> are read from
  both collectors; every string field is a template expression until it is resolved.
  \<open>Tail\<close> is Go's \<open>*int\<close> and \<open>ShowEvents\<close> is \<open>*bool\<close>: \<open>None\<close> is the nil pointer. The
  tail count is only printed, never computed with, so it is an \<open>int\<close>.
\<close>

type_synonym metav1_Duration = int

record Collector =
  Name :: string
  Namespace :: string
  Selector :: string

record v1alpha1_PodLogs = Collector +
  Container :: string
  Tail :: "int option"

record 'r v1alpha1_Describe = Collector +
  Cluster :: string
  Timeout :: "metav1_Duration option"
  ResourceReference :: 'r
  ShowEvents :: "bool option"

record v1alpha1_Command =
  Cluster :: string
  Timeout :: "metav1_Duration option"
  Entrypoint :: string
  Args :: "string list"

subsection \<open>Formatting\<close>

text \<open>
  \<open>fmt.Sprint\<close> of an integer is its decimal numeral, with a minus sign below zero;
  \<open>fmt.Sprintf("%t", b)\<close> is \<open>true\<close> or \<open>false\<close>.
\<close>

fun decimal :: "nat \<Rightarrow> string" where
  "decimal n =
     (if n < 10 then [''0123456789'' ! n]
      else decimal (n div 10) @ [''0123456789'' ! (n mod 10)])"

definition fmt_Sprint :: "int \<Rightarrow> string" where
  "fmt_Sprint i = (if i < 0 then ''-'' @ decimal (nat (- i)) else decimal (nat i))"

definition fmt_bool :: "bool \<Rightarrow> string" where
  "fmt_bool b = (if b then ''true'' else ''false'')"

subsection \<open>The log builder\<close>

text \<open>
  \<open>Logs\<close> (pkg/engine/kubectl/logs.go). The binding resolver \<open>apibindings.String\<close> is a
  collaborator, passed as the parameter \<open>String\<close>; the bindings are opaque. The result
  pairs the template expressions handed to the resolver, in call order, with what the Go
  function returns: an error, or the entry point and the argument vector. Every early
  \<open>return\<close> of the source is a branch here.
\<close>

definition Logs ::
  "(string \<Rightarrow> 'b \<Rightarrow> error + string) \<Rightarrow> 'b \<Rightarrow> v1alpha1_PodLogs option
    \<Rightarrow> string list \<times> (error + string \<times> string list)" where
  "Logs String bindings collector =
    (case collector of
      None \<Rightarrow> ([], Inl (errors_New ''collector is null''))
    | Some c \<Rightarrow>
    (case String (Name c) bindings of
      Inl err \<Rightarrow> ([Name c], Inl err)
    | Inr name \<Rightarrow>
    (case String (Namespace c) bindings of
      Inl err \<Rightarrow> ([Name c, Namespace c], Inl err)
    | Inr namespace \<Rightarrow>
    (case String (Selector c) bindings of
      Inl err \<Rightarrow> ([Name c, Namespace c, Selector c], Inl err)
    | Inr selector \<Rightarrow>
    (case String (Container c) bindings of
      Inl err \<Rightarrow> ([Name c, Namespace c, Selector c, Container c], Inl err)
    | Inr container \<Rightarrow>
      (let resolved = [Name c, Namespace c, Selector c, Container c] in
       if name = '''' \<and> selector = '''' then
         (resolved, Inl (errors_New ''a name or selector must be specified''))
       else if name \<noteq> '''' \<and> selector \<noteq> '''' then
         (resolved, Inl (errors_New ''name cannot be provided when a selector is specified''))
       else
         let args = [''logs'', ''--prefix''];
             args = (if name \<noteq> '''' then args @ [name]
                     else if selector \<noteq> '''' then args @ [''-l'', selector]
                     else args);
             namespace = (if namespace = '''' then ''$NAMESPACE'' else namespace);
             args = args @ [''-n'', namespace];
             args = (if container = '''' then args @ [''--all-containers'']
                     else args @ [''-c'', container]);
             args = (case Tail c of
                       None \<Rightarrow> args
                     | Some n \<Rightarrow> args @ [''--tail'', fmt_Sprint n])
         in (resolved, Inr (''kubectl'', args))))))))"

subsection \<open>The describe builder\<close>

text \<open>
  \<open>Describe\<close> (pkg/runner/kubectl/describe.go). The resolver
  \<open>apitemplate.ConvertString\<close> and the resource mapper \<open>mapResource\<close> are collaborators,
  passed as parameters; \<open>mapResource\<close> returns the resource string and whether the
  resource is cluster-scoped. The only validation before the resource is mapped is the
  one on a name given together with a selector.
\<close>

definition Describe ::
  "('c \<Rightarrow> 'b \<Rightarrow> 'r \<Rightarrow> error + string \<times> bool) \<Rightarrow> (string \<Rightarrow> 'b \<Rightarrow> error + string)
    \<Rightarrow> 'c \<Rightarrow> 'b \<Rightarrow> 'r v1alpha1_Describe option
    \<Rightarrow> string list \<times> (error + v1alpha1_Command)" where
  "Describe mapResource ConvertString client bindings collector =
    (case collector of
      None \<Rightarrow> ([], Inl (errors_New ''collector is null''))
    | Some c \<Rightarrow>
    (case ConvertString (Name c) bindings of
      Inl err \<Rightarrow> ([Name c], Inl err)
    | Inr name \<Rightarrow>
    (case ConvertString (Namespace c) bindings of
      Inl err \<Rightarrow> ([Name c, Namespace c], Inl err)
    | Inr namespace \<Rightarrow>
    (case ConvertString (Selector c) bindings of
      Inl err \<Rightarrow> ([Name c, Namespace c, Selector c], Inl err)
    | Inr selector \<Rightarrow>
    (case ConvertString (v1alpha1_Describe.Cluster c) bindings of
      Inl err \<Rightarrow> ([Name c, Namespace c, Selector c, v1alpha1_Describe.Cluster c], Inl err)
    | Inr cluster \<Rightarrow>
      (let resolved = [Name c, Namespace c, Selector c, v1alpha1_Describe.Cluster c] in
       if name \<noteq> '''' \<and> selector \<noteq> '''' then
         (resolved, Inl (errors_New ''name cannot be provided when a selector is specified''))
       else
         (case mapResource client bindings (ResourceReference c) of
           Inl err \<Rightarrow> (resolved, Inl err)
         | Inr (resource, clustered) \<Rightarrow>
             let cmd = \<lparr>Cluster = cluster,
                        Timeout = v1alpha1_Describe.Timeout c,
                        Entrypoint = ''kubectl'',
                        Args = [''describe'', resource]\<rparr>;
                 cmd = (if name \<noteq> '''' then cmd\<lparr>Args := Args cmd @ [name]\<rparr>
                        else if selector \<noteq> '''' then cmd\<lparr>Args := Args cmd @ [''-l'', selector]\<rparr>
                        else cmd);
                 cmd = (if \<not> clustered then
                          (if namespace = ''*'' then cmd\<lparr>Args := Args cmd @ [''--all-namespaces'']\<rparr>
                           else
                             let namespace = (if namespace = '''' then ''$NAMESPACE'' else namespace)
                             in cmd\<lparr>Args := Args cmd @ [''-n'', namespace]\<rparr>)
                        else cmd);
                 cmd = (case ShowEvents c of
                          None \<Rightarrow> cmd
                        | Some b \<Rightarrow> cmd\<lparr>Args := Args cmd @ [''--show-events='' @ fmt_bool b]\<rparr>)
             in (resolved, Inr cmd))))))))"

section \<open>The tests processor\<close>

subsection \<open>Slices\<close>

text \<open>
  The binding lists of a test are Go slices: a slice is a window on a backing array (the
  array, the position of its first element, its length and its capacity), and two slices
  may show the same array. The memory is the list of the backing arrays, a slice names
  its array by position; the nil slice has length and capacity 0.
\<close>

record slice =
  ptr :: nat
  off :: nat
  len :: nat
  cap :: nat

type_synonym 'a memory = "'a list list"

definition elems :: "'a memory \<Rightarrow> slice \<Rightarrow> 'a list" where
  "elems mem s = map (\<lambda>j. mem ! ptr s ! j) [off s ..< off s + len s]"

fun copy_into :: "'a list \<Rightarrow> nat \<Rightarrow> 'a list \<Rightarrow> 'a list" where
  "copy_into a i [] = a"
| "copy_into a i (x # xs) = copy_into (a[i := x]) (i + 1) xs"

text \<open>
  The built-in \<open>append(s, xs...)\<close>: when the capacity of \<open>s\<close> suffices, the new elements
  are written into the backing array of \<open>s\<close>, behind its last element, and the result is a
  longer window on the same array; otherwise the elements of \<open>s\<close> and the new ones go to
  a new array. (The runtime may give the new array more capacity than needed; \<open>Run\<close>
  never appends to such a result.)
\<close>

definition append_slice :: "'a memory \<Rightarrow> slice \<Rightarrow> 'a list \<Rightarrow> slice \<times> 'a memory" where
  "append_slice mem s xs =
     (if len s + length xs \<le> cap s then
        (s\<lparr>len := len s + length xs\<rparr>,
         mem[ptr s := copy_into (mem ! ptr s) (off s + len s) xs])
      else
        (\<lparr>ptr = length mem, off = 0, len = len s + length xs, cap = len s + length xs\<rparr>,
         mem @ [elems mem s @ xs]))"

subsection \<open>Test definitions and scenario expansion\<close>

text \<open>
  The fields of a discovered test that \<open>testsProcessor.Run\<close> reads. \<open>Test\<close> is a pointer
  (\<open>None\<close> is nil), as are \<open>Concurrent\<close> and \<open>Skip\<close>. The binding declarations (the
  elements of the memory) and the object metadata are opaque.
\<close>

record v1alpha1_Scenario =
  Bindings :: slice

record v1alpha1_TestSpec =
  Bindings :: slice
  Scenarios :: "v1alpha1_Scenario list"
  Concurrent :: "bool option"
  Skip :: "bool option"

record 'm v1alpha1_Test =
  ObjectMeta :: 'm
  Spec :: v1alpha1_TestSpec

record 'm discovery_Test =
  Test :: "'m v1alpha1_Test option"

record 'm TestInfo =
  Id :: nat
  ScenarioId :: nat
  Metadata :: 'm

text \<open>
  Modelled from the spec: \<open>DeepCopy\<close> of a test definition is generated code that is not
  among the sources. By the spec an instance is independent of the declared test: the
  copy has the fields of the original, and its bindings are the elements of the
  original's in a backing array of its own. (The copies of the scenarios are dropped by
  line 145, so their arrays are left out.)
\<close>

definition DeepCopy :: "'a memory \<Rightarrow> 'm v1alpha1_Test \<Rightarrow> 'm v1alpha1_Test \<times> 'a memory" where
  "DeepCopy mem tt =
     (let n = len (Bindings (Spec tt));
          bindings = \<lparr>ptr = length mem, off = 0, len = n, cap = n\<rparr>
      in (tt\<lparr>Spec := (Spec tt)\<lparr>Bindings := bindings\<rparr>\<rparr>,
          mem @ [elems mem (Bindings (Spec tt))]))"

text \<open>
  The loop over the declared scenarios (lines 141 to 150 of the processor): each round
  copies the declared test, clears the copy's scenarios, appends the copy's bindings to
  the scenario's binding slice (line 147, in place when that slice has the capacity) and
  appends the copy to \<open>scenarios\<close>, a slice of the function's own.
\<close>

fun expand ::
  "'a memory \<Rightarrow> 'm discovery_Test \<Rightarrow> 'm v1alpha1_Test \<Rightarrow> v1alpha1_Scenario list
    \<Rightarrow> 'm discovery_Test list \<Rightarrow> 'm discovery_Test list \<times> 'a memory" where
  "expand mem test tt [] scenarios = (scenarios, mem)"
| "expand mem test tt (scenario # rest) scenarios =
     (let (copy, mem) = DeepCopy mem tt;
          copy = copy\<lparr>Spec := (Spec copy)\<lparr>Scenarios := []\<rparr>\<rparr>;
          bindings = v1alpha1_Scenario.Bindings scenario;
          (bindings, mem) = append_slice mem bindings (elems mem (Bindings (Spec copy)));
          copy = copy\<lparr>Spec := (Spec copy)\<lparr>Bindings := bindings\<rparr>\<rparr>
      in expand mem test tt rest (scenarios @ [test\<lparr>Test := Some copy\<rparr>]))"

text \<open>Lines 136 to 152: a test without a definition yields no instance at all.\<close>

definition scenarios ::
  "'a memory \<Rightarrow> 'm discovery_Test \<Rightarrow> 'm discovery_Test list \<times> 'a memory" where
  "scenarios mem test =
     (case Test test of
        None \<Rightarrow> ([], mem)
      | Some tt \<Rightarrow>
          if length (Scenarios (Spec tt)) = 0 then ([] @ [test], mem)
          else expand mem test tt (Scenarios (Spec tt)) [])"

text \<open>
  What the closure handed to \<open>t.Run\<close> captures: the display name, the loop indices \<open>i\<close>
  and \<open>s\<close> (both from 0) and the expanded test. The closure reads \<open>i\<close> and \<open>s\<close> only
  after \<open>t.Parallel\<close>, when the loops may be over; each round of a Go loop has variables
  of its own (the language's rule since Go 1.22), so the closure reads the indices of its
  own round.
\<close>

record 'm test_instance =
  inst_name :: string
  inst_i :: nat
  inst_s :: nat
  inst_test :: "'m discovery_Test"

definition instances ::
  "string \<Rightarrow> nat \<Rightarrow> 'a memory \<Rightarrow> 'm discovery_Test \<Rightarrow> 'm test_instance list \<times> 'a memory" where
  "instances name i mem test =
     (let (scenarios, mem) = scenarios mem test
      in (map (\<lambda>(s, test). \<lparr>inst_name = name, inst_i = i, inst_s = s, inst_test = test\<rparr>)
            (enumerate 0 scenarios), mem))"

text \<open>Lines 187 to 191: the \<open>test\<close> binding of an instance.\<close>

definition info :: "'m test_instance \<Rightarrow> 'm v1alpha1_Test \<Rightarrow> 'm TestInfo" where
  "info inst tt = \<lparr>Id = inst_i inst + 1, ScenarioId = inst_s inst + 1, Metadata = ObjectMeta tt\<rparr>"

text \<open>
  The outer loop (lines 129 to 199), as far as it decides which instances are handed to
  \<open>t.Run\<close>: \<open>names.Test\<close> is a collaborator, and its error ends the loop through
  \<open>failer.FailNow\<close>. The result is the instances in the order of their \<open>t.Run\<close> calls,
  whether the loop was cut short, and the memory the loop leaves by its own writes (the
  per-test processors are collaborators).
\<close>

fun schedule ::
  "('m discovery_Test \<Rightarrow> error + string) \<Rightarrow> 'a memory \<Rightarrow> nat \<Rightarrow> 'm discovery_Test list
    \<Rightarrow> 'm test_instance list \<times> bool \<times> 'a memory" where
  "schedule names_Test mem i [] = ([], False, mem)"
| "schedule names_Test mem i (test # tests) =
     (case names_Test test of
        Inl err \<Rightarrow> ([], True, mem)
      | Inr name \<Rightarrow>
          (let (mine, mem) = instances name i mem test;
               (later, failed, mem) = schedule names_Test mem (i + 1) tests
           in (mine @ later, failed, mem)))"








subsection \<open>Setting up the namespace\<close>

text \<open>
  The cluster client is an interface: a table of methods over the state \<open>'k\<close> of the
  cluster it talks to. \<open>Get\<close> only reads; \<open>Create\<close> may change the cluster. Both return
  Go's \<open>error\<close>, \<open>None\<close> for nil.
\<close>

record ('o, 'k) client_Client =
  Get :: "'k \<Rightarrow> 'o \<Rightarrow> error option"
  Create :: "'k \<Rightarrow> 'o \<Rightarrow> error option \<times> 'k"

text \<open>
  The package-level functions the set-up calls, none of them in the sources at hand:
  \<open>kube.ToUnstructured(kube.Namespace(name))\<close>, the object's \<open>GetName\<close>,
  \<open>mutate.Merge\<close>, \<open>cleanup.Skip(config, nil, nil)\<close>, \<open>binding.NewBindings\<close> and the two
  binding registrations. Objects \<open>'o\<close>, templates \<open>'v\<close> and bindings \<open>'b\<close> are opaque.
\<close>

record ('o, 'v, 'b) collaborators =
  kube_Namespace :: "string \<Rightarrow> 'o"
  GetName :: "'o \<Rightarrow> string"
  mutate_Merge :: "'o \<Rightarrow> 'b \<Rightarrow> 'v \<Rightarrow> error + 'o"
  cleanup_Skip :: "bool \<Rightarrow> bool"
  NewBindings :: 'b
  RegisterClusterBindings :: "'b \<Rightarrow> 'b"
  RegisterNamedBinding :: "'b \<Rightarrow> string \<Rightarrow> string \<Rightarrow> 'b"

text \<open>
  The configuration fields read by \<open>Run\<close>. \<open>Namespace_Template\<close> is the template pointer
  and, behind it, its value: \<open>Some (Some v)\<close> when neither is nil.
\<close>

record 'v model_Configuration =
  Namespace_Name :: string
  Namespace_Template :: "'v option option"
  Cleanup_SkipDelete :: bool
  Execution_FailFast :: bool

record summary_Summary =
  Passed :: nat
  Failed :: nat
  Skipped :: nat

text \<open>
  The processor: \<open>clusters\<close> is what \<open>p.clusters.Resolve(false)\<close> returns, an error or
  the client (which may be nil); \<open>report\<close> tells whether \<open>p.report\<close> is non-nil; \<open>summary\<close>
  is \<open>None\<close> for a nil \<open>p.summary\<close>.
\<close>

record ('m, 'o, 'v, 'k) testsProcessor =
  config :: "'v model_Configuration"
  clusters :: "error + ('o, 'k) client_Client option"
  summary :: "summary_Summary option"
  report :: bool
  tests :: "'m discovery_Test list"

text \<open>
  The effects of the set-up on the enclosing test \<open>t\<close> and on the cluster: the cleanups
  registered with \<open>t.Cleanup\<close>, most recent first, and the calls made, in order.
\<close>

datatype 'o cleanup = SetEndTime | delete_namespace 'o

datatype 'o event =
    SetStartTime_call
  | Log_call error
  | FailNow_call
  | Get_call 'o
  | Cleanup_call "'o cleanup"
  | Create_call 'o
  | Ran_call "'o cleanup"

record ('o, 'b, 'k) setup_state =
  cluster_state :: 'k
  ctx_bindings :: 'b
  nspacer :: "string option"
  t_cleanups :: "'o cleanup list"
  events :: "'o event list"

definition emit :: "'o event list \<Rightarrow> ('o, 'b, 'k) setup_state \<Rightarrow> ('o, 'b, 'k) setup_state" where
  "emit es st = st\<lparr>events := events st @ es\<rparr>"

definition t_Cleanup :: "'o cleanup \<Rightarrow> ('o, 'b, 'k) setup_state \<Rightarrow> ('o, 'b, 'k) setup_state" where
  "t_Cleanup f st = emit [Cleanup_call f] (st\<lparr>t_cleanups := f # t_cleanups st\<rparr>)"

text \<open>
  Lines 67 to 100 of \<open>Run\<close>: everything before the namespace is fetched. \<open>Inl\<close> is the
  state in which \<open>failer.FailNow\<close> ended the run; \<open>Inr\<close> carries the state and, when a
  namespace is configured on a cluster, the client and the namespace object to fetch.
\<close>

definition Run_prepare ::
  "('o, 'v, 'b) collaborators \<Rightarrow> ('m, 'o, 'v, 'k) testsProcessor \<Rightarrow> 'b option \<Rightarrow> 'k
    \<Rightarrow> ('o, 'b, 'k) setup_state
        + ('o, 'b, 'k) setup_state \<times> (('o, 'k) client_Client \<times> 'o) option" where
  "Run_prepare co p bindings0 k =
    (let st = \<lparr>cluster_state = k,
               ctx_bindings = (case bindings0 of None \<Rightarrow> NewBindings co | Some b \<Rightarrow> b),
               nspacer = None, t_cleanups = [], events = []\<rparr>;
         st = (if report p then t_Cleanup SetEndTime (emit [SetStartTime_call] st) else st)
     in case clusters p of
          Inl err \<Rightarrow> Inl (emit [Log_call err, FailNow_call] st)
        | Inr clusterClient \<Rightarrow>
            (let st = st\<lparr>ctx_bindings := RegisterClusterBindings co (ctx_bindings st)\<rparr>
             in case clusterClient of
                  None \<Rightarrow> Inr (st, None)
                | Some client \<Rightarrow>
                    if Namespace_Name (config p) \<noteq> '''' then
                      (let object = kube_Namespace co (Namespace_Name (config p));
                           st = st\<lparr>ctx_bindings :=
                                  RegisterNamedBinding co (ctx_bindings st) ''namespace'' (GetName co object)\<rparr>
                       in case Namespace_Template (config p) of
                            Some (Some template) \<Rightarrow>
                              (case mutate_Merge co object (ctx_bindings st) template of
                                 Inl err \<Rightarrow> Inl (emit [FailNow_call] st)
                               | Inr merged \<Rightarrow>
                                   (let object = merged;
                                        st = st\<lparr>ctx_bindings :=
                                               RegisterNamedBinding co (ctx_bindings st) ''namespace''
                                                 (GetName co object)\<rparr>
                                    in Inr (st\<lparr>nspacer := Some (GetName co object)\<rparr>,
                                            Some (client, object))))
                          | _ \<Rightarrow> Inr (st\<lparr>nspacer := Some (GetName co object)\<rparr>,
                                      Some (client, object)))
                    else Inr (st, None)))"

text \<open>
  Lines 101 to 125: fetch the namespace; when it is not found, register its deletion
  unless the skip-delete policy applies, then create it.
\<close>

definition Run_namespace ::
  "('o, 'v, 'b) collaborators \<Rightarrow> 'v model_Configuration \<Rightarrow> ('o, 'k) client_Client \<Rightarrow> 'o
    \<Rightarrow> ('o, 'b, 'k) setup_state \<Rightarrow> ('o, 'b, 'k) setup_state + ('o, 'b, 'k) setup_state" where
  "Run_namespace co cfg client object st0 =
    (let st = emit [Get_call object] st0
     in case Get client (cluster_state st) object of
          None \<Rightarrow> Inr st
        | Some err \<Rightarrow>
            if \<not> errors_IsNotFound err then Inl (emit [Log_call err, FailNow_call] st)
            else
              (let st = (if \<not> cleanup_Skip co (Cleanup_SkipDelete cfg)
                         then t_Cleanup (delete_namespace object) st else st);
                   (err, k) = Create client (cluster_state st) object;
                   st = emit [Create_call object] (st\<lparr>cluster_state := k\<rparr>)
               in case err of
                    None \<Rightarrow> Inr st
                  | Some err \<Rightarrow> Inl (emit [FailNow_call] st)))"

definition Run_setup ::
  "('o, 'v, 'b) collaborators \<Rightarrow> ('m, 'o, 'v, 'k) testsProcessor \<Rightarrow> 'b option \<Rightarrow> 'k
    \<Rightarrow> ('o, 'b, 'k) setup_state + ('o, 'b, 'k) setup_state" where
  "Run_setup co p bindings0 k =
    (case Run_prepare co p bindings0 k of
       Inl st \<Rightarrow> Inl st
     | Inr (st, None) \<Rightarrow> Inr st
     | Inr (st, Some (client, object)) \<Rightarrow> Run_namespace co (config p) client object st)"

text \<open>
  When the enclosing test ends, by returning or through \<open>FailNow\<close>, the testing runtime
  runs every registered cleanup, the most recently registered first.
\<close>

definition t_exit :: "('o, 'b, 'k) setup_state \<Rightarrow> ('o, 'b, 'k) setup_state" where
  "t_exit st = (emit (map Ran_call (t_cleanups st)) st)\<lparr>t_cleanups := []\<rparr>"

subsection \<open>Running the instances\<close>

text \<open>
  Each instance is the closure handed to \<open>t.Run\<close> (lines 155 to 197), run by the testing
  runtime on a test \<open>t\<close> of its own. Of that \<open>t\<close> the closure uses \<open>Failed\<close>, \<open>Skipped\<close>
  and the stack of cleanups registered with \<open>t.Cleanup\<close> (most recent first: the runtime
  runs them last-registered first when the test ends, however it ends). The phase tells
  how far the closure has come: not yet called by \<open>t.Run\<close>; cleanups registered, waiting
  at or before the skip decisions (a concurrent instance waits in \<open>t.Parallel\<close>); inside
  \<open>processor.Run\<close>; running its cleanups; finished.
\<close>

datatype phase = NotStarted | Spawned | Running | Exiting | Done

datatype closure = failfast_cleanup | summary_cleanup

record testing_T =
  phase :: phase
  t_failed :: bool
  t_skipped :: bool
  t_cleanup :: "closure list"

text \<open>
  The calls an instance makes on what it shares with the others (the fail-fast flag and
  the summary), on the runtime and on the per-test processor. The log pairs each call
  with the position of the instance that made it.
\<close>

datatype 'm call =
    Parallel_call
  | SkipNow_call
  | Load_call bool
  | processor_Run_call "'m TestInfo"
  | IncSkipped_call
  | IncFailed_call
  | IncPassed_call
  | Store_call

record 'm run_state =
  shouldFailFast :: bool
  counters :: "summary_Summary option"
  ts :: "testing_T list"
  calls :: "(nat \<times> 'm call) list"

definition start_state :: "summary_Summary option \<Rightarrow> nat \<Rightarrow> 'm run_state" where
  "start_state s n =
     \<lparr>shouldFailFast = False, counters = s,
      ts = replicate n \<lparr>phase = NotStarted, t_failed = False, t_skipped = False, t_cleanup = []\<rparr>,
      calls = []\<rparr>"

definition on_t :: "nat \<Rightarrow> (testing_T \<Rightarrow> testing_T) \<Rightarrow> 'm run_state \<Rightarrow> 'm run_state" where
  "on_t k f st = st\<lparr>ts := (ts st)[k := f (ts st ! k)]\<rparr>"

definition log :: "nat \<Rightarrow> 'm call \<Rightarrow> 'm run_state \<Rightarrow> 'm run_state" where
  "log k c st = st\<lparr>calls := calls st @ [(k, c)]\<rparr>"

text \<open>The three increments of the summary, atomic each.\<close>

definition IncSkipped :: "nat \<Rightarrow> 'm run_state \<Rightarrow> 'm run_state" where
  "IncSkipped k st =
     log k IncSkipped_call (st\<lparr>counters := map_option (\<lambda>c. c\<lparr>Skipped := Skipped c + 1\<rparr>) (counters st)\<rparr>)"

definition IncFailed :: "nat \<Rightarrow> 'm run_state \<Rightarrow> 'm run_state" where
  "IncFailed k st =
     log k IncFailed_call (st\<lparr>counters := map_option (\<lambda>c. c\<lparr>Failed := Failed c + 1\<rparr>) (counters st)\<rparr>)"

definition IncPassed :: "nat \<Rightarrow> 'm run_state \<Rightarrow> 'm run_state" where
  "IncPassed k st =
     log k IncPassed_call (st\<lparr>counters := map_option (\<lambda>c. c\<lparr>Passed := Passed c + 1\<rparr>) (counters st)\<rparr>)"

text \<open>The cleanup of lines 157 to 161 and the one of lines 163 to 173.\<close>

definition run_failfast_cleanup :: "nat \<Rightarrow> 'm run_state \<Rightarrow> 'm run_state" where
  "run_failfast_cleanup k st =
     (if t_failed (ts st ! k) then log k Store_call (st\<lparr>shouldFailFast := True\<rparr>) else st)"

definition run_summary_cleanup :: "nat \<Rightarrow> 'm run_state \<Rightarrow> 'm run_state" where
  "run_summary_cleanup k st =
     (if t_skipped (ts st ! k) then IncSkipped k st
      else if t_failed (ts st ! k) then IncFailed k st
      else IncPassed k st)"

text \<open>
  Lines 155 to 174: \<open>t.Run\<close> calls the closure, which registers the fail-fast cleanup
  and then, when there is a summary, the summary cleanup.
\<close>

definition spawn :: "nat \<Rightarrow> 'm run_state \<Rightarrow> 'm run_state" where
  "spawn k st =
     on_t k (\<lambda>t.
       let t = t\<lparr>t_cleanup := failfast_cleanup # t_cleanup t\<rparr>;
           t = (if counters st \<noteq> None then t\<lparr>t_cleanup := summary_cleanup # t_cleanup t\<rparr> else t)
       in t\<lparr>phase := Spawned\<rparr>) st"

text \<open>
  Lines 175 to 196, up to the call of the processor: \<open>t.Parallel\<close> unless the instance
  is declared not concurrent, the explicit skip, then one load of the fail-fast flag when
  fail-fast is configured. \<open>t.SkipNow\<close> marks the test skipped and ends the closure.
\<close>

definition SkipNow :: "nat \<Rightarrow> 'm run_state \<Rightarrow> 'm run_state" where
  "SkipNow k st = log k SkipNow_call (on_t k (\<lambda>t. t\<lparr>t_skipped := True, phase := Exiting\<rparr>) st)"

definition begin_body ::
  "bool \<Rightarrow> 'm test_instance \<Rightarrow> 'm v1alpha1_Test \<Rightarrow> nat \<Rightarrow> 'm run_state
    \<Rightarrow> 'm run_state" where
  "begin_body FailFast inst tt k st0 =
     (let st = (if Concurrent (Spec tt) = None \<or> Concurrent (Spec tt) = Some True
                then log k Parallel_call st0 else st0)
      in if Skip (Spec tt) = Some True then SkipNow k st
         else
           (let load = FailFast \<and> shouldFailFast st;
                st = (if FailFast then log k (Load_call (shouldFailFast st)) st else st)
            in if load then SkipNow k st
               else log k (processor_Run_call (info inst tt)) (on_t k (\<lambda>t. t\<lparr>phase := Running\<rparr>) st)))"

text \<open>
  \<open>processor.Run\<close> is a collaborator: when it is over (by returning, or by ending the
  test through \<open>FailNow\<close> or \<open>SkipNow\<close>, its own cleanups included, which the runtime runs
  before the two registered earlier), \<open>t.Failed()\<close> and \<open>t.Skipped()\<close> have whatever
  values \<open>f\<close> and \<open>sk\<close> it left.
\<close>

definition processor_returns :: "nat \<Rightarrow> bool \<Rightarrow> bool \<Rightarrow> 'm run_state \<Rightarrow> 'm run_state" where
  "processor_returns k f sk st =
     on_t k (\<lambda>t. t\<lparr>t_failed := f, t_skipped := sk, phase := Exiting\<rparr>) st"

text \<open>The runtime pops the most recently registered cleanup and runs it.\<close>

definition run_cleanup :: "nat \<Rightarrow> 'm run_state \<Rightarrow> 'm run_state option" where
  "run_cleanup k st =
     (case t_cleanup (ts st ! k) of
        [] \<Rightarrow> None
      | c # rest \<Rightarrow>
          (let st = on_t k (\<lambda>t. t\<lparr>t_cleanup := rest, phase := (if rest = [] then Done else Exiting)\<rparr>) st
           in Some (case c of
                      failfast_cleanup \<Rightarrow> run_failfast_cleanup k st
                    | summary_cleanup \<Rightarrow> run_summary_cleanup k st)))"

text \<open>
  One step of one instance. The instances run concurrently, so a run is any sequence of
  such steps in which every instance goes through its own phases in order; this covers
  every order the testing runtime can produce, whatever \<open>Concurrent\<close> says. Each step
  touches the shared state at most once, by one atomic load, store or increment. A step
  that is not enabled, or a closure that dereferences a nil test, gives \<open>None\<close>.
\<close>

datatype action = Spawn nat | Begin nat | Return nat bool bool | Cleanup nat

fun step ::
  "bool \<Rightarrow> 'm test_instance list \<Rightarrow> action \<Rightarrow> 'm run_state \<Rightarrow> 'm run_state option" where
  "step FailFast insts (Spawn k) st =
     (if k < length (ts st) \<and> phase (ts st ! k) = NotStarted then Some (spawn k st) else None)"
| "step FailFast insts (Begin k) st =
     (if k < length (ts st) \<and> k < length insts \<and> phase (ts st ! k) = Spawned then
        (case Test (inst_test (insts ! k)) of
           None \<Rightarrow> None
         | Some tt \<Rightarrow> Some (begin_body FailFast (insts ! k) tt k st))
      else None)"
| "step FailFast insts (Return k f sk) st =
     (if k < length (ts st) \<and> phase (ts st ! k) = Running then Some (processor_returns k f sk st)
      else None)"
| "step FailFast insts (Cleanup k) st =
     (if k < length (ts st) \<and> phase (ts st ! k) = Exiting then run_cleanup k st else None)"

fun exec ::
  "bool \<Rightarrow> 'm test_instance list \<Rightarrow> action list \<Rightarrow> 'm run_state \<Rightarrow> 'm run_state option" where
  "exec FailFast insts [] st = Some st"
| "exec FailFast insts (a # as) st =
     (case step FailFast insts a st of
        None \<Rightarrow> None
      | Some st' \<Rightarrow> exec FailFast insts as st')"

text \<open>
  Lines 128 to 199 under a given order \<open>as\<close> of the steps, in a given memory: the
  instances are those the loop hands to \<open>t.Run\<close>, the flag starts unset, and the counters
  are those of the processor's summary.
\<close>

definition Run_tests ::
  "('m discovery_Test \<Rightarrow> error + string) \<Rightarrow> 'a memory \<Rightarrow> ('m, 'o, 'v, 'k) testsProcessor
    \<Rightarrow> action list \<Rightarrow> 'm run_state option" where
  "Run_tests names_Test mem p as =
     (let insts = fst (schedule names_Test mem 0 (tests p))
      in exec (Execution_FailFast (config p)) insts as (start_state (summary p) (length insts)))"

text \<open>
  \<open>Run\<close> as a whole: the set-up, then, unless \<open>FailNow\<close> ended it, the instances; the
  cleanups of the enclosing test run when it ends, either way.
\<close>

definition Run ::
  "('o, 'v, 'b) collaborators \<Rightarrow> ('m discovery_Test \<Rightarrow> error + string) \<Rightarrow> 'a memory
    \<Rightarrow> ('m, 'o, 'v, 'k) testsProcessor \<Rightarrow> 'b option \<Rightarrow> 'k \<Rightarrow> action list
    \<Rightarrow> ('o, 'b, 'k) setup_state \<times> 'm run_state option" where
  "Run co names_Test mem p bindings0 k as =
     (case Run_setup co p bindings0 k of
        Inl st \<Rightarrow> (t_exit st, None)
      | Inr st \<Rightarrow> (t_exit st, Run_tests names_Test mem p as))"

text \<open>What the summary cleanup of an instance calls, given how its test ended.\<close>

definition verdict :: "testing_T \<Rightarrow> 'm call" where
  "verdict t =
     (if t_skipped t then IncSkipped_call else if t_failed t then IncFailed_call else IncPassed_call)"

fun is_Inc :: "'m call \<Rightarrow> bool" where
  "is_Inc IncSkipped_call = True"
| "is_Inc IncFailed_call = True"
| "is_Inc IncPassed_call = True"
| "is_Inc _ = False"

fun is_processor_Run :: "'m call \<Rightarrow> bool" where
  "is_processor_Run (processor_Run_call i) = True"
| "is_processor_Run _ = False"

definition calls_of :: "nat \<Rightarrow> 'm run_state \<Rightarrow> 'm call list" where
  "calls_of k st = map snd (filter (\<lambda>(j, c). j = k) (calls st))"

text \<open>The explicit skip of an instance: its \<open>Skip\<close> pointer is set and points to true.\<close>

definition explicit_Skip :: "'m test_instance \<Rightarrow> bool" where
  "explicit_Skip inst =
     (case Test (inst_test inst) of None \<Rightarrow> False | Some tt \<Rightarrow> Skip (Spec tt) = Some True)"

subsection \<open>What the loop leaves unchanged\<close>


subsection \<open>Observations on a run\<close>

text \<open>
  What the properties below read off a state: the calls one instance has made, among
  them its increments of the summary and its calls of the per-test processor, how often a
  given call occurs in the whole log, and the cleanups an instance registers at its start.
\<close>

fun actor :: "action \<Rightarrow> nat" where
  "actor (Spawn k) = k"
| "actor (Begin k) = k"
| "actor (Return k f sk) = k"
| "actor (Cleanup k) = k"

definition registered :: "'m run_state \<Rightarrow> closure list" where
  "registered st = (if counters st \<noteq> None then [summary_cleanup] else []) @ [failfast_cleanup]"

definition incs :: "nat \<Rightarrow> 'm run_state \<Rightarrow> 'm call list" where
  "incs k st = filter is_Inc (calls_of k st)"

definition runs :: "nat \<Rightarrow> 'm run_state \<Rightarrow> 'm call list" where
  "runs k st = filter is_processor_Run (calls_of k st)"

definition tally :: "'m call \<Rightarrow> 'm run_state \<Rightarrow> nat" where
  "tally c st = length (filter (\<lambda>x. snd x = c) (calls st))"

text \<open>What the decisions of lines 178 to 185 come to: whether the instance skips.\<close>

definition skips :: "bool \<Rightarrow> 'm v1alpha1_Test \<Rightarrow> 'm run_state \<Rightarrow> bool" where
  "skips FailFast tt st = (Skip (Spec tt) = Some True \<or> (FailFast \<and> shouldFailFast st))"

subsection \<open>Invariants of a run\<close>

text \<open>
  The state of one instance, phase by phase: which cleanups are still registered, that
  it has made no increment before its summary cleanup ran and exactly the one of its
  verdict afterwards, that it stores to the fail-fast flag only in its last cleanup, and
  that a finished instance that failed has set the flag.
\<close>

definition inv_T :: "nat \<Rightarrow> 'm run_state \<Rightarrow> bool" where
  "inv_T k st =
     (let t = ts st ! k in
      case phase t of
        NotStarted \<Rightarrow> t_cleanup t = [] \<and> incs k st = [] \<and> runs k st = []
          \<and> Store_call \<notin> set (calls_of k st) \<and> \<not> t_failed t \<and> \<not> t_skipped t
      | Spawned \<Rightarrow> t_cleanup t = registered st \<and> incs k st = [] \<and> runs k st = []
          \<and> Store_call \<notin> set (calls_of k st) \<and> \<not> t_failed t \<and> \<not> t_skipped t
      | Running \<Rightarrow> t_cleanup t = registered st \<and> incs k st = []
          \<and> Store_call \<notin> set (calls_of k st) \<and> \<not> t_failed t \<and> \<not> t_skipped t
      | Exiting \<Rightarrow>
          (t_cleanup t = registered st \<and> incs k st = []
            \<or> counters st \<noteq> None \<and> t_cleanup t = [failfast_cleanup] \<and> incs k st = [verdict t])
          \<and> Store_call \<notin> set (calls_of k st)
      | Done \<Rightarrow> t_cleanup t = [] \<and> incs k st = (if counters st \<noteq> None then [verdict t] else [])
          \<and> (t_failed t \<longrightarrow> shouldFailFast st \<and> Store_call \<in> set (calls_of k st)))"

text \<open>An instance that has to skip has not decided yet, or it ended skipped.\<close>

definition skipping :: "nat \<Rightarrow> 'm run_state \<Rightarrow> bool" where
  "skipping k st =
     (\<not> t_failed (ts st ! k) \<and> runs k st = []
      \<and> (phase (ts st ! k) = NotStarted \<or> phase (ts st ! k) = Spawned
          \<or> (phase (ts st ! k) = Exiting \<or> phase (ts st ! k) = Done) \<and> t_skipped (ts st ! k)))"

definition has_to_skip :: "bool \<Rightarrow> 'm test_instance list \<Rightarrow> nat \<Rightarrow> 'm run_state \<Rightarrow> bool" where
  "has_to_skip FailFast insts k st =
     (k < length insts \<and> explicit_Skip (insts ! k) \<or> FailFast \<and> shouldFailFast st)"

text \<open>Once the body of an instance has ended, what its test reports stays.\<close>

definition ended :: "nat \<Rightarrow> bool \<Rightarrow> bool \<Rightarrow> 'm run_state \<Rightarrow> bool" where
  "ended k f sk st =
     ((phase (ts st ! k) = Exiting \<or> phase (ts st ! k) = Done)
      \<and> t_failed (ts st ! k) = f \<and> t_skipped (ts st ! k) = sk)"

text \<open>The counters are the initial ones plus the increments in the log.\<close>

definition counted :: "summary_Summary \<Rightarrow> 'm run_state \<Rightarrow> bool" where
  "counted c0 st =
     (\<exists>c. counters st = Some c
        \<and> Passed c = Passed c0 + tally IncPassed_call st
        \<and> Failed c = Failed c0 + tally IncFailed_call st
        \<and> Skipped c = Skipped c0 + tally IncSkipped_call st)"

definition bounded :: "'m run_state \<Rightarrow> bool" where
  "bounded st = (\<forall>x \<in> set (calls st). fst x < length (ts st))"

subsection \<open>A small suite and a small cluster\<close>

text \<open>
  Concrete inputs to run the definitions on: tests without scenarios (with a given
  \<open>Skip\<close> pointer), a test with two scenarios, a suite named by a resolver that always
  succeeds, a cluster that is the list of the names of its namespaces (its \<open>Create\<close>
  succeeds or is refused), and two states of a run of three instances under fail-fast:
  after the first instance has failed, and at the end. The binding slices of the tests
  show the arrays of a small memory, in which the first scenario has one spare cell;
  \<open>example_expanded\<close> is that memory after the loop, and \<open>example_aliased\<close> is a test
  whose two scenarios share one array.
\<close>

definition example_memory :: "string memory" where
  "example_memory = [[''base''], [''a'', ''''], [''b'']]"


definition example_test :: "bool option \<Rightarrow> string discovery_Test" where
  "example_test skip =
     \<lparr>Test = Some \<lparr>ObjectMeta = ''meta'',
                   Spec = \<lparr>Bindings = \<lparr>ptr = 0, off = 0, len = 1, cap = 1\<rparr>, Scenarios = [],
                           Concurrent = None, Skip = skip\<rparr>\<rparr>\<rparr>"



definition example_suite :: "bool option list \<Rightarrow> string test_instance list" where
  "example_suite flags =
     fst (schedule (\<lambda>t. Inr ''suite'') example_memory 0 (map example_test flags))"

definition example_collaborators :: "(string, unit, (string \<times> string) list) collaborators" where
  "example_collaborators =
     \<lparr>kube_Namespace = (\<lambda>name. name), GetName = (\<lambda>object. object),
      mutate_Merge = (\<lambda>object b template. Inr object), cleanup_Skip = (\<lambda>skipDelete. skipDelete),
      NewBindings = [], RegisterClusterBindings = (\<lambda>b. b),
      RegisterNamedBinding = (\<lambda>b name v. (name, v) # b)\<rparr>"

definition example_client :: "bool \<Rightarrow> (string, string list) client_Client" where
  "example_client creates =
     \<lparr>Get = (\<lambda>k object. if object \<in> set k then None else Some NotFound),
      Create = (\<lambda>k object. if creates then (None, object # k) else (Some (Other ''forbidden''), k))\<rparr>"

definition example_processor ::
  "bool \<Rightarrow> summary_Summary option \<Rightarrow> bool option list
    \<Rightarrow> (string, string, unit, string list) testsProcessor" where
  "example_processor creates s flags =
     \<lparr>config = \<lparr>Namespace_Name = ''chainsaw'', Namespace_Template = None,
                Cleanup_SkipDelete = False, Execution_FailFast = True\<rparr>,
      clusters = Inr (Some (example_client creates)),
      summary = s, report = True, tests = map example_test flags\<rparr>"

definition example_midrun :: "string run_state" where
  "example_midrun =
     \<lparr>shouldFailFast = True, counters = Some \<lparr>Passed = 0, Failed = 1, Skipped = 0\<rparr>,
      ts = [\<lparr>phase = Done, t_failed = True, t_skipped = False, t_cleanup = []\<rparr>,
            \<lparr>phase = Running, t_failed = False, t_skipped = False,
               t_cleanup = [summary_cleanup, failfast_cleanup]\<rparr>,
            \<lparr>phase = NotStarted, t_failed = False, t_skipped = False, t_cleanup = []\<rparr>],
      calls = [(0, Parallel_call), (0, Load_call False),
               (0, processor_Run_call \<lparr>Id = 1, ScenarioId = 1, Metadata = ''meta''\<rparr>),
               (1, Parallel_call), (1, Load_call False),
               (1, processor_Run_call \<lparr>Id = 2, ScenarioId = 1, Metadata = ''meta''\<rparr>),
               (0, IncFailed_call), (0, Store_call)]\<rparr>"

definition example_final :: "string run_state" where
  "example_final =
     \<lparr>shouldFailFast = True, counters = Some \<lparr>Passed = 1, Failed = 1, Skipped = 1\<rparr>,
      ts = [\<lparr>phase = Done, t_failed = True, t_skipped = False, t_cleanup = []\<rparr>,
            \<lparr>phase = Done, t_failed = False, t_skipped = False, t_cleanup = []\<rparr>,
            \<lparr>phase = Done, t_failed = False, t_skipped = True, t_cleanup = []\<rparr>],
      calls = [(0, Parallel_call), (0, Load_call False),
               (0, processor_Run_call \<lparr>Id = 1, ScenarioId = 1, Metadata = ''meta''\<rparr>),
               (1, Parallel_call), (1, Load_call False),
               (1, processor_Run_call \<lparr>Id = 2, ScenarioId = 1, Metadata = ''meta''\<rparr>),
               (0, IncFailed_call), (0, Store_call), (1, IncPassed_call),
               (2, Parallel_call), (2, Load_call True), (2, SkipNow_call),
               (2, IncSkipped_call)]\<rparr>"

definition example_skipped :: "string run_state" where
  "example_skipped =
     \<lparr>shouldFailFast = False, counters = Some \<lparr>Passed = 1, Failed = 0, Skipped = 1\<rparr>,
      ts = [\<lparr>phase = Done, t_failed = False, t_skipped = False, t_cleanup = []\<rparr>,
            \<lparr>phase = Done, t_failed = False, t_skipped = True, t_cleanup = []\<rparr>],
      calls = [(1, Parallel_call), (1, SkipNow_call), (0, Parallel_call), (0, Load_call False),
               (0, processor_Run_call \<lparr>Id = 1, ScenarioId = 1, Metadata = ''meta''\<rparr>),
               (1, IncSkipped_call), (0, IncPassed_call)]\<rparr>"

definition example_uncounted :: "string run_state" where
  "example_uncounted =
     \<lparr>shouldFailFast = False, counters = None,
      ts = [\<lparr>phase = Done, t_failed = False, t_skipped = False, t_cleanup = []\<rparr>],
      calls = [(0, Parallel_call), (0, Load_call False),
               (0, processor_Run_call \<lparr>Id = 1, ScenarioId = 1, Metadata = ''meta''\<rparr>)]\<rparr>"

section \<open>Properties of the builders\<close>

subsection \<open>Helper facts\<close>

lemma Logs_resolved:
  assumes "String (Name c) bindings = Inr name"
    and "String (Namespace c) bindings = Inr namespace"
    and "String (Selector c) bindings = Inr selector"
    and "String (Container c) bindings = Inr container"
  shows "Logs String bindings (Some c) =
    ([Name c, Namespace c, Selector c, Container c],
     if name = '''' \<and> selector = '''' then
       Inl (errors_New ''a name or selector must be specified'')
     else if name \<noteq> '''' \<and> selector \<noteq> '''' then
       Inl (errors_New ''name cannot be provided when a selector is specified'')
     else
       Inr (''kubectl'',
         [''logs'', ''--prefix'']
         @ (if name \<noteq> '''' then [name] else [''-l'', selector])
         @ [''-n'', if namespace = '''' then ''$NAMESPACE'' else namespace]
         @ (if container = '''' then [''--all-containers''] else [''-c'', container])
         @ (case Tail c of None \<Rightarrow> [] | Some n \<Rightarrow> [''--tail'', fmt_Sprint n])))"
  using assms by (auto simp add: Logs_def Let_def split: option.splits)

lemma Logs_no_command:
  assumes "String (Name c) bindings = Inr name"
    and "String (Selector c) bindings = Inr selector"
    and "(name = '''') = (selector = '''')"
  shows "\<exists>err. snd (Logs String bindings (Some c)) = Inl err"
  using assms by (auto simp add: Logs_def Let_def split: sum.splits)

lemma Describe_resolved:
  assumes "ConvertString (Name c) bindings = Inr name"
    and "ConvertString (Namespace c) bindings = Inr namespace"
    and "ConvertString (Selector c) bindings = Inr selector"
    and "ConvertString (v1alpha1_Describe.Cluster c) bindings = Inr cluster"
    and "name = '''' \<or> selector = ''''"
    and "mapResource client bindings (ResourceReference c) = Inr (resource, clustered)"
  shows "Describe mapResource ConvertString client bindings (Some c) =
    ([Name c, Namespace c, Selector c, v1alpha1_Describe.Cluster c],
     Inr \<lparr>Cluster = cluster, Timeout = v1alpha1_Describe.Timeout c, Entrypoint = ''kubectl'',
         Args = [''describe'', resource]
           @ (if name \<noteq> '''' then [name] else if selector \<noteq> '''' then [''-l'', selector] else [])
           @ (if clustered then []
              else if namespace = ''*'' then [''--all-namespaces'']
              else [''-n'', if namespace = '''' then ''$NAMESPACE'' else namespace])
           @ (case ShowEvents c of None \<Rightarrow> [] | Some b \<Rightarrow> [''--show-events='' @ fmt_bool b])\<rparr>)"
  using assms by (auto simp add: Describe_def Let_def split: option.splits)

lemma Describe_rejects:
  assumes "ConvertString (Name c) bindings = Inr name"
    and "ConvertString (Namespace c) bindings = Inr namespace"
    and "ConvertString (Selector c) bindings = Inr selector"
    and "ConvertString (v1alpha1_Describe.Cluster c) bindings = Inr cluster"
    and "name \<noteq> ''''" and "selector \<noteq> ''''"
  shows "Describe mapResource ConvertString client bindings (Some c) =
    ([Name c, Namespace c, Selector c, v1alpha1_Describe.Cluster c],
     Inl (errors_New ''name cannot be provided when a selector is specified''))"
  using assms by (simp add: Describe_def Let_def)

lemma Describe_no_command:
  assumes "ConvertString (Name c) bindings = Inr name"
    and "ConvertString (Selector c) bindings = Inr selector"
    and "name \<noteq> ''''" and "selector \<noteq> ''''"
  shows "\<exists>err. snd (Describe mapResource ConvertString client bindings (Some c)) = Inl err"
  using assms by (auto simp add: Describe_def Let_def split: sum.splits)

subsection \<open>Empty name and empty selector\<close>

text \<open>
  Claim C1, as amended. When every templated field of a log collector resolves and the
  resolved name and selector are both empty, \<open>Logs\<close> returns the error
  "a name or selector must be specified" and no command; whatever the other fields do, it
  returns no command. \<open>Describe\<close> has no such check: when its fields resolve with name
  and selector both empty and the resource maps, it returns the command
  \<open>describe <resource>\<close> followed only by the namespace flags and the optional
  show-events flag.
\<close>

theorem empty_name_and_selector:
  "(String (Name c) b = Inr '''' \<and> String (Namespace c) b = Inr namespace
        \<and> String (Selector c) b = Inr '''' \<and> String (Container c) b = Inr container
      \<longrightarrow> Logs String b (Some c) =
          ([Name c, Namespace c, Selector c, Container c],
           Inl (errors_New ''a name or selector must be specified'')))
   \<and> (String (Name c) b = Inr '''' \<and> String (Selector c) b = Inr ''''
      \<longrightarrow> (\<exists>err. snd (Logs String b (Some c)) = Inl err))
   \<and> (ConvertString (Name d) b' = Inr '''' \<and> ConvertString (Namespace d) b' = Inr namespace'
        \<and> ConvertString (Selector d) b' = Inr ''''
        \<and> ConvertString (v1alpha1_Describe.Cluster d) b' = Inr cluster
        \<and> mapResource client b' (ResourceReference d) = Inr (resource, clustered)
      \<longrightarrow> Describe mapResource ConvertString client b' (Some d) =
          ([Name d, Namespace d, Selector d, v1alpha1_Describe.Cluster d],
           Inr \<lparr>Cluster = cluster, Timeout = v1alpha1_Describe.Timeout d,
                Entrypoint = ''kubectl'',
                Args = [''describe'', resource]
                  @ (if clustered then []
                     else if namespace' = ''*'' then [''--all-namespaces'']
                     else [''-n'', if namespace' = '''' then ''$NAMESPACE'' else namespace'])
                  @ (case ShowEvents d of None \<Rightarrow> []
                     | Some b \<Rightarrow> [''--show-events='' @ fmt_bool b])\<rparr>))"
proof (intro conjI impI)
  assume "String (Name c) b = Inr '''' \<and> String (Namespace c) b = Inr namespace
        \<and> String (Selector c) b = Inr '''' \<and> String (Container c) b = Inr container"
  then show "Logs String b (Some c) =
          ([Name c, Namespace c, Selector c, Container c],
           Inl (errors_New ''a name or selector must be specified''))"
    using Logs_resolved [of String c b "''''" namespace "''''" container] by simp
next
  assume "String (Name c) b = Inr '''' \<and> String (Selector c) b = Inr ''''"
  then show "\<exists>err. snd (Logs String b (Some c)) = Inl err"
    using Logs_no_command [of String c b "''''" "''''"] by simp
next
  assume a: "ConvertString (Name d) b' = Inr '''' \<and> ConvertString (Namespace d) b' = Inr namespace'
        \<and> ConvertString (Selector d) b' = Inr ''''
        \<and> ConvertString (v1alpha1_Describe.Cluster d) b' = Inr cluster
        \<and> mapResource client b' (ResourceReference d) = Inr (resource, clustered)"
  then show "Describe mapResource ConvertString client b' (Some d) =
          ([Name d, Namespace d, Selector d, v1alpha1_Describe.Cluster d],
           Inr \<lparr>Cluster = cluster, Timeout = v1alpha1_Describe.Timeout d,
                Entrypoint = ''kubectl'',
                Args = [''describe'', resource]
                  @ (if clustered then []
                     else if namespace' = ''*'' then [''--all-namespaces'']
                     else [''-n'', if namespace' = '''' then ''$NAMESPACE'' else namespace'])
                  @ (case ShowEvents d of None \<Rightarrow> []
                     | Some b \<Rightarrow> [''--show-events='' @ fmt_bool b])\<rparr>)"
    by (auto simp add: Describe_def Let_def split: option.splits)
qed

theorem empty_name_and_selector_witness:
  "Logs (\<lambda>e b. Inr e) ()
     (Some \<lparr>Name = '''', Namespace = ''ns1'', Selector = '''', Container = ''c1'', Tail = None\<rparr>)
   = (['''', ''ns1'', '''', ''c1''], Inl (errors_New ''a name or selector must be specified''))
   \<and> Describe (\<lambda>c b r. Inr (r, False)) (\<lambda>e b. Inr e) () ()
     (Some \<lparr>Name = '''', Namespace = ''*'', Selector = '''',
            v1alpha1_Describe.Cluster = ''c2'', v1alpha1_Describe.Timeout = Some 30,
            ResourceReference = ''pods'', ShowEvents = Some True\<rparr>)
   = (['''', ''*'', '''', ''c2''],
      Inr \<lparr>Cluster = ''c2'', Timeout = Some 30, Entrypoint = ''kubectl'',
           Args = [''describe'', ''pods'', ''--all-namespaces'', ''--show-events=true'']\<rparr>)"
  using empty_name_and_selector [of "\<lambda>e b. Inr e"
      "\<lparr>Name = '''', Namespace = ''ns1'', Selector = '''', Container = ''c1'', Tail = None\<rparr>"
      "()" "''ns1''" "''c1''" "\<lambda>e b. Inr e"
      "\<lparr>Name = '''', Namespace = ''*'', Selector = '''',
        v1alpha1_Describe.Cluster = ''c2'', v1alpha1_Describe.Timeout = Some 30,
        ResourceReference = ''pods'', ShowEvents = Some True\<rparr>"
      "()" "''*''" "''c2''" "\<lambda>c b r. Inr (r, False)" "()" "''pods''" False]
  by (simp add: fmt_bool_def)

text \<open>
  The claim as first stated fails for \<open>Describe\<close>: with an empty name and an empty
  selector on the resource \<open>pods\<close> it returns a command.
\<close>

theorem empty_name_and_selector_counterexample:
  "snd (Describe (\<lambda>c b r. Inr (r, False)) (\<lambda>e b. Inr e) () ()
     (Some \<lparr>Name = '''', Namespace = '''', Selector = '''',
            v1alpha1_Describe.Cluster = '''', v1alpha1_Describe.Timeout = None,
            ResourceReference = ''pods'', ShowEvents = None\<rparr>))
   = Inr \<lparr>Cluster = '''', Timeout = None, Entrypoint = ''kubectl'',
          Args = [''describe'', ''pods'', ''-n'', ''$NAMESPACE'']\<rparr>"
  by (simp add: Describe_def)

subsection \<open>The argument vector of the log builder\<close>

text \<open>
  Claim C2. For a log collector whose four templated fields resolve and of whose resolved
  name and selector exactly one is non-empty, \<open>Logs\<close> returns the entry point
  \<open>kubectl\<close> and exactly the arguments \<open>logs\<close>, \<open>--prefix\<close>, then the name or \<open>-l\<close>
  and the selector, then \<open>-n\<close> and the namespace (\<open>$NAMESPACE\<close> when it resolved empty),
  then \<open>--all-containers\<close> for an empty container or \<open>-c\<close> and the container, then
  \<open>--tail\<close> and the decimal tail count when, and only when, a tail count is set.
\<close>

theorem Logs_argv:
  assumes "String (Name c) bindings = Inr name"
    and "String (Namespace c) bindings = Inr namespace"
    and "String (Selector c) bindings = Inr selector"
    and "String (Container c) bindings = Inr container"
    and "(name = '''') \<noteq> (selector = '''')"
  shows "snd (Logs String bindings (Some c)) =
    Inr (''kubectl'',
      [''logs'', ''--prefix'']
      @ (if name \<noteq> '''' then [name] else [''-l'', selector])
      @ [''-n'', if namespace = '''' then ''$NAMESPACE'' else namespace]
      @ (if container = '''' then [''--all-containers''] else [''-c'', container])
      @ (case Tail c of None \<Rightarrow> [] | Some n \<Rightarrow> [''--tail'', fmt_Sprint n]))"
  using assms by (auto simp add: Logs_def Let_def split: option.splits)

theorem Logs_argv_witness:
  "snd (Logs (\<lambda>e b. Inr e) ()
      (Some \<lparr>Name = ''web-0'', Namespace = '''', Selector = '''', Container = ''c1'', Tail = Some 10\<rparr>))
   = Inr (''kubectl'', [''logs'', ''--prefix'', ''web-0'', ''-n'', ''$NAMESPACE'', ''-c'', ''c1'', ''--tail'', ''10''])"
  using Logs_argv [of "\<lambda>e b. Inr e"
      "\<lparr>Name = ''web-0'', Namespace = '''', Selector = '''', Container = ''c1'', Tail = Some 10\<rparr>"
      "()" "''web-0''" "''''" "''''" "''c1''"]
  by (simp add: fmt_Sprint_def)

subsection \<open>Namespace flags of the describe builder\<close>

text \<open>
  Claim C7, as amended. For a describe collector whose fields resolve, whose name and
  selector are not both given and whose resource maps, the arguments are exactly
  \<open>describe\<close>, the resource, the name or \<open>-l\<close> and the selector if either is given, the
  namespace flags, and \<open>--show-events=<bool>\<close> exactly when the option is set. The
  namespace flags are none for a cluster-scoped resource, \<open>--all-namespaces\<close> for the
  namespace \<open>*\<close>, \<open>-n $NAMESPACE\<close> for the empty namespace and \<open>-n\<close> with the namespace
  otherwise. So for a cluster-scoped resource the arguments contain neither \<open>-n\<close> nor
  \<open>--all-namespaces\<close>, unless the resource, the name or the selector is itself one of
  these two strings.
\<close>

theorem Describe_namespace_flags:
  assumes "ConvertString (Name c) bindings = Inr name"
    and "ConvertString (Namespace c) bindings = Inr namespace"
    and "ConvertString (Selector c) bindings = Inr selector"
    and "ConvertString (v1alpha1_Describe.Cluster c) bindings = Inr cluster"
    and "name = '''' \<or> selector = ''''"
    and "mapResource client bindings (ResourceReference c) = Inr (resource, clustered)"
  shows "\<exists>cmd. snd (Describe mapResource ConvertString client bindings (Some c)) = Inr cmd
    \<and> Args cmd = [''describe'', resource]
           @ (if name \<noteq> '''' then [name] else if selector \<noteq> '''' then [''-l'', selector] else [])
           @ (if clustered then []
              else if namespace = ''*'' then [''--all-namespaces'']
              else [''-n'', if namespace = '''' then ''$NAMESPACE'' else namespace])
           @ (case ShowEvents c of None \<Rightarrow> [] | Some b \<Rightarrow> [''--show-events='' @ fmt_bool b])
    \<and> (clustered \<and> {resource, name, selector} \<inter> {''-n'', ''--all-namespaces''} = {}
         \<longrightarrow> ''-n'' \<notin> set (Args cmd) \<and> ''--all-namespaces'' \<notin> set (Args cmd))"
proof -
  note eq = Describe_resolved [of ConvertString c bindings name namespace selector cluster
      mapResource client resource clustered]
  from assms eq show ?thesis
    by (auto simp add: fmt_bool_def split: option.splits)
qed

theorem Describe_namespace_flags_witness:
  "\<exists>cmd. snd (Describe (\<lambda>c b r. Inr (r, True)) (\<lambda>e b. Inr e) () ()
      (Some \<lparr>Name = ''node-1'', Namespace = ''ns1'', Selector = '''', v1alpha1_Describe.Cluster = '''',
             v1alpha1_Describe.Timeout = None, ResourceReference = ''nodes'', ShowEvents = Some False\<rparr>)) = Inr cmd
    \<and> Args cmd = [''describe'', ''nodes'', ''node-1'', ''--show-events=false'']
    \<and> ''-n'' \<notin> set (Args cmd) \<and> ''--all-namespaces'' \<notin> set (Args cmd)"
  using Describe_namespace_flags [of "\<lambda>e b. Inr e"
      "\<lparr>Name = ''node-1'', Namespace = ''ns1'', Selector = '''', v1alpha1_Describe.Cluster = '''',
        v1alpha1_Describe.Timeout = None, ResourceReference = ''nodes'', ShowEvents = Some False\<rparr>"
      "()" "''node-1''" "''ns1''" "''''" "''''" "\<lambda>c b r. Inr (r, True)" "()" "''nodes''" True]
  by (simp add: fmt_bool_def)

text \<open>
  The claim as first stated fails where the collector's own name is \<open>-n\<close>: the builder
  passes it through, and the arguments for the cluster-scoped resource contain \<open>-n\<close>.
\<close>

theorem Describe_cluster_scoped_counterexample:
  "snd (Describe (\<lambda>c b r. Inr (r, True)) (\<lambda>e b. Inr e) () ()
      (Some \<lparr>Name = ''-n'', Namespace = '''', Selector = '''', v1alpha1_Describe.Cluster = '''',
             v1alpha1_Describe.Timeout = None, ResourceReference = ''nodes'', ShowEvents = None\<rparr>))
   = Inr \<lparr>Cluster = '''', Timeout = None, Entrypoint = ''kubectl'',
          Args = [''describe'', ''nodes'', ''-n'']\<rparr>
   \<and> ''-n'' \<in> set [''describe'', ''nodes'', ''-n'']"
  by (simp add: Describe_def)

subsection \<open>A name together with a selector\<close>

text \<open>
  Claim C8, as amended. When every templated field of the collector resolves (name,
  namespace, selector, and the container for \<open>Logs\<close> or the cluster for \<open>Describe\<close>) and
  the resolved name and selector are both non-empty, each builder returns the error
  "name cannot be provided when a selector is specified" and no command. When the name
  and the selector resolve to non-empty strings and another field does not resolve (the
  namespace, or the container for \<open>Logs\<close> or the cluster for \<open>Describe\<close>), each builder
  returns the error of that resolution, after the calls of the resolver up to the failing
  one, and no command. So whenever the name and the selector resolve to non-empty
  strings, the result is an error and not a command.
\<close>

theorem name_with_selector_rejected:
  assumes "name \<noteq> ''''" and "selector \<noteq> ''''"
  shows
    "(String (Name c) b = Inr name \<and> String (Namespace c) b = Inr namespace
        \<and> String (Selector c) b = Inr selector \<and> String (Container c) b = Inr container
      \<longrightarrow> Logs String b (Some c) =
          ([Name c, Namespace c, Selector c, Container c],
           Inl (errors_New ''name cannot be provided when a selector is specified'')))
   \<and> (ConvertString (Name d) b' = Inr name \<and> ConvertString (Namespace d) b' = Inr namespace'
        \<and> ConvertString (Selector d) b' = Inr selector
        \<and> ConvertString (v1alpha1_Describe.Cluster d) b' = Inr cluster
      \<longrightarrow> Describe mapResource ConvertString client b' (Some d) =
          ([Name d, Namespace d, Selector d, v1alpha1_Describe.Cluster d],
           Inl (errors_New ''name cannot be provided when a selector is specified'')))
   \<and> (String (Name c) b = Inr name \<and> String (Selector c) b = Inr selector
        \<and> String (Namespace c) b = Inl err
      \<longrightarrow> Logs String b (Some c) = ([Name c, Namespace c], Inl err))
   \<and> (String (Name c) b = Inr name \<and> String (Namespace c) b = Inr namespace
        \<and> String (Selector c) b = Inr selector \<and> String (Container c) b = Inl err
      \<longrightarrow> Logs String b (Some c) = ([Name c, Namespace c, Selector c, Container c], Inl err))
   \<and> (ConvertString (Name d) b' = Inr name \<and> ConvertString (Selector d) b' = Inr selector
        \<and> ConvertString (Namespace d) b' = Inl err'
      \<longrightarrow> Describe mapResource ConvertString client b' (Some d) =
          ([Name d, Namespace d], Inl err'))
   \<and> (ConvertString (Name d) b' = Inr name \<and> ConvertString (Namespace d) b' = Inr namespace'
        \<and> ConvertString (Selector d) b' = Inr selector
        \<and> ConvertString (v1alpha1_Describe.Cluster d) b' = Inl err'
      \<longrightarrow> Describe mapResource ConvertString client b' (Some d) =
          ([Name d, Namespace d, Selector d, v1alpha1_Describe.Cluster d], Inl err'))
   \<and> (String (Name c) b = Inr name \<and> String (Selector c) b = Inr selector
      \<longrightarrow> (\<exists>e. snd (Logs String b (Some c)) = Inl e))
   \<and> (ConvertString (Name d) b' = Inr name \<and> ConvertString (Selector d) b' = Inr selector
      \<longrightarrow> (\<exists>e. snd (Describe mapResource ConvertString client b' (Some d)) = Inl e))"
proof (intro conjI impI)
  assume "String (Name c) b = Inr name \<and> String (Namespace c) b = Inr namespace
        \<and> String (Selector c) b = Inr selector \<and> String (Container c) b = Inr container"
  then show "Logs String b (Some c) =
          ([Name c, Namespace c, Selector c, Container c],
           Inl (errors_New ''name cannot be provided when a selector is specified''))"
    using assms Logs_resolved [of String c b name namespace selector container] by simp
next
  assume "ConvertString (Name d) b' = Inr name \<and> ConvertString (Namespace d) b' = Inr namespace'
        \<and> ConvertString (Selector d) b' = Inr selector
        \<and> ConvertString (v1alpha1_Describe.Cluster d) b' = Inr cluster"
  then show "Describe mapResource ConvertString client b' (Some d) =
          ([Name d, Namespace d, Selector d, v1alpha1_Describe.Cluster d],
           Inl (errors_New ''name cannot be provided when a selector is specified''))"
    using assms Describe_rejects [of ConvertString d b' name namespace' selector cluster] by simp
next
  assume "String (Name c) b = Inr name \<and> String (Selector c) b = Inr selector
        \<and> String (Namespace c) b = Inl err"
  then show "Logs String b (Some c) = ([Name c, Namespace c], Inl err)"
    by (simp add: Logs_def)
next
  assume "String (Name c) b = Inr name \<and> String (Namespace c) b = Inr namespace
        \<and> String (Selector c) b = Inr selector \<and> String (Container c) b = Inl err"
  then show "Logs String b (Some c) = ([Name c, Namespace c, Selector c, Container c], Inl err)"
    by (simp add: Logs_def)
next
  assume "ConvertString (Name d) b' = Inr name \<and> ConvertString (Selector d) b' = Inr selector
        \<and> ConvertString (Namespace d) b' = Inl err'"
  then show "Describe mapResource ConvertString client b' (Some d) =
          ([Name d, Namespace d], Inl err')"
    by (simp add: Describe_def)
next
  assume "ConvertString (Name d) b' = Inr name \<and> ConvertString (Namespace d) b' = Inr namespace'
        \<and> ConvertString (Selector d) b' = Inr selector
        \<and> ConvertString (v1alpha1_Describe.Cluster d) b' = Inl err'"
  then show "Describe mapResource ConvertString client b' (Some d) =
          ([Name d, Namespace d, Selector d, v1alpha1_Describe.Cluster d], Inl err')"
    by (simp add: Describe_def)
next
  assume "String (Name c) b = Inr name \<and> String (Selector c) b = Inr selector"
  then show "\<exists>e. snd (Logs String b (Some c)) = Inl e"
    using assms Logs_no_command [of String c b name selector] by simp
next
  assume "ConvertString (Name d) b' = Inr name \<and> ConvertString (Selector d) b' = Inr selector"
  then show "\<exists>e. snd (Describe mapResource ConvertString client b' (Some d)) = Inl e"
    using assms Describe_no_command [of ConvertString d b' name selector] by simp
qed

theorem name_with_selector_rejected_witness:
  "Logs (\<lambda>e b. Inr e) ()
     (Some \<lparr>Name = ''web-0'', Namespace = ''ns1'', Selector = ''app=web'', Container = '''', Tail = None\<rparr>)
   = ([''web-0'', ''ns1'', ''app=web'', ''''],
      Inl (errors_New ''name cannot be provided when a selector is specified''))
   \<and> Describe (\<lambda>c b r. Inr (r, False)) (\<lambda>e b. Inr e) () ()
     (Some \<lparr>Name = ''web-0'', Namespace = ''ns1'', Selector = ''app=web'',
            v1alpha1_Describe.Cluster = '''', v1alpha1_Describe.Timeout = None,
            ResourceReference = ''pods'', ShowEvents = None\<rparr>)
   = ([''web-0'', ''ns1'', ''app=web'', ''''],
      Inl (errors_New ''name cannot be provided when a selector is specified''))"
  using name_with_selector_rejected [of "''web-0''" "''app=web''" "\<lambda>e b. Inr e"
      "\<lparr>Name = ''web-0'', Namespace = ''ns1'', Selector = ''app=web'', Container = '''', Tail = None\<rparr>"
      "()" "''ns1''" "''''" "\<lambda>e b. Inr e"
      "\<lparr>Name = ''web-0'', Namespace = ''ns1'', Selector = ''app=web'',
        v1alpha1_Describe.Cluster = '''', v1alpha1_Describe.Timeout = None,
        ResourceReference = ''pods'', ShowEvents = None\<rparr>"
      "()" "''ns1''" "''''" "\<lambda>c b r. Inr (r, False)" "()"]
  by simp

text \<open>
  The claim as first stated fails where another field does not resolve: the name and the
  selector resolve to non-empty strings, the container does not, and \<open>Logs\<close> returns the
  resolver's error instead of the validation error.
\<close>

theorem name_with_selector_counterexample:
  "(\<lambda>e b. if e = ''($missing)'' then Inl (Other ''unresolved'') else Inr e) ''web-0'' () = Inr ''web-0''
   \<and> (\<lambda>e b. if e = ''($missing)'' then Inl (Other ''unresolved'') else Inr e) ''app=web'' () = Inr ''app=web''
   \<and> Logs (\<lambda>e b. if e = ''($missing)'' then Inl (Other ''unresolved'') else Inr e) ()
     (Some \<lparr>Name = ''web-0'', Namespace = ''ns1'', Selector = ''app=web'',
            Container = ''($missing)'', Tail = None\<rparr>)
   = ([''web-0'', ''ns1'', ''app=web'', ''($missing)''], Inl (Other ''unresolved''))"
  by (simp add: Logs_def)

subsection \<open>The nil collector\<close>

text \<open>
  Claim C10. For a nil collector both builders return the error "collector is null": no
  template expression is handed to the resolver (the list of resolved expressions is
  empty, and the result is the same for every resolver and every resource mapper) and no
  command is produced.
\<close>

theorem nil_collector_rejected:
  "Logs String bindings None = ([], Inl (errors_New ''collector is null''))
   \<and> Describe mapResource ConvertString client bindings' None
       = ([], Inl (errors_New ''collector is null''))"
  by (simp add: Logs_def Describe_def)

section \<open>Properties of the tests processor\<close>

subsection \<open>Scenario expansion\<close>












lemma copy_into_length [simp]: "length (copy_into a i xs) = length a"
  by (induction xs arbitrary: a i) simp_all



lemma elems_length [simp]: "length (elems mem s) = len s"
  by (simp add: elems_def)


























subsection \<open>The namespace on the cluster\<close>

lemma Run_prepare_cluster:
  "Run_prepare co p b k = Inr (st, Some (client, object)) \<Longrightarrow> cluster_state st = k"
  by (auto simp add: Run_prepare_def Let_def emit_def t_Cleanup_def
      split: sum.splits option.splits if_splits)

lemma Run_prepare_events:
  "Run_prepare co p b k = Inr (st, tgt) \<Longrightarrow>
     events st = (if report p then [SetStartTime_call, Cleanup_call SetEndTime] else [])
     \<and> t_cleanups st = (if report p then [SetEndTime] else [])"
  by (auto simp add: Run_prepare_def Let_def emit_def t_Cleanup_def
      split: sum.splits option.splits if_splits)

text \<open>
  Claim C5. Whenever \<open>Run\<close> comes to fetch the namespace (a client is resolved, a
  namespace name is configured and the template, if any, merges) and the fetch succeeds,
  the set-up ends without an error after the fetch: it has made no create call, has
  registered no deletion cleanup and has not called \<open>FailNow\<close>, and the cluster is as it
  was, so that a repeated run on it does the same again.
\<close>

theorem existing_namespace_reused:
  assumes "Run_prepare co p b k = Inr (st, Some (client, object))"
    and "Get client k object = None"
  shows "Run_setup co p b k = Inr (emit [Get_call object] st)
    \<and> cluster_state (emit [Get_call object] st) = k
    \<and> Run_setup co p b (cluster_state (emit [Get_call object] st)) = Run_setup co p b k
    \<and> (\<forall>x. Create_call x \<notin> set (events (emit [Get_call object] st)))
    \<and> (\<forall>x. Cleanup_call (delete_namespace x) \<notin> set (events (emit [Get_call object] st)))
    \<and> (\<forall>x. delete_namespace x \<notin> set (t_cleanups (emit [Get_call object] st)))
    \<and> FailNow_call \<notin> set (events (emit [Get_call object] st))"
proof -
  note k = Run_prepare_cluster [OF assms(1)]
  note ev = Run_prepare_events [OF assms(1)]
  have run: "Run_setup co p b k = Inr (emit [Get_call object] st)"
    using assms k by (simp add: Run_setup_def Run_namespace_def Let_def emit_def)
  have same: "cluster_state (emit [Get_call object] st) = k"
    using k by (simp add: emit_def)
  show ?thesis
    using run same ev by (auto simp add: emit_def)
qed

theorem existing_namespace_reused_witness:
  "Run_setup example_collaborators (example_processor True None []) None [''chainsaw''] =
     Inr \<lparr>cluster_state = [''chainsaw''], ctx_bindings = [(''namespace'', ''chainsaw'')],
          nspacer = Some ''chainsaw'', t_cleanups = [SetEndTime],
          events = [SetStartTime_call, Cleanup_call SetEndTime, Get_call ''chainsaw'']\<rparr>
   \<and> Run_setup example_collaborators (example_processor True None []) None [''chainsaw''] =
       Run_setup example_collaborators (example_processor True None []) None
         (cluster_state \<lparr>cluster_state = [''chainsaw''],
            ctx_bindings = [(''namespace'', ''chainsaw'')],
            nspacer = Some ''chainsaw'', t_cleanups = [SetEndTime],
            events = [SetStartTime_call, Cleanup_call SetEndTime, Get_call ''chainsaw'']\<rparr>)"
proof -
  have prep: "Run_prepare example_collaborators (example_processor True None []) None [''chainsaw''] =
      Inr (\<lparr>cluster_state = [''chainsaw''], ctx_bindings = [(''namespace'', ''chainsaw'')],
            nspacer = Some ''chainsaw'', t_cleanups = [SetEndTime],
            events = [SetStartTime_call, Cleanup_call SetEndTime]\<rparr>,
           Some (example_client True, ''chainsaw''))"
    by (simp add: Run_prepare_def example_collaborators_def example_processor_def
        emit_def t_Cleanup_def Let_def)
  have fetch: "Get (example_client True) [''chainsaw''] ''chainsaw'' = None"
    by (simp add: example_client_def)
  from existing_namespace_reused [OF prep fetch] show ?thesis
    by (simp add: emit_def)
qed

text \<open>
  Claim C6. Whenever \<open>Run\<close> comes to fetch the namespace, the fetch fails with "not
  found" and the skip-delete policy does not apply, the calls of the set-up are, in this
  order, the fetch, the registration of the deletion cleanup and the create call, with no
  create call before; the set-up continues when the create succeeds and ends through
  \<open>FailNow\<close> when it fails. Either way the deletion is the most recently registered
  cleanup of the enclosing test, so it is the first cleanup run when that test ends.
\<close>

theorem cleanup_registered_before_create:
  assumes "Run_prepare co p b k = Inr (st, Some (client, object))"
    and "Get client k object = Some err"
    and "errors_IsNotFound err"
    and "\<not> cleanup_Skip co (Cleanup_SkipDelete (config p))"
    and "Create client k object = (r, k')"
  shows "\<exists>st'. Run_setup co p b k = (case r of None \<Rightarrow> Inr st' | Some e \<Rightarrow> Inl st')
    \<and> events st' = events st
        @ [Get_call object, Cleanup_call (delete_namespace object), Create_call object]
        @ (case r of None \<Rightarrow> [] | Some e \<Rightarrow> [FailNow_call])
    \<and> (\<forall>x. Create_call x \<notin> set (events st))
    \<and> t_cleanups st' = delete_namespace object # t_cleanups st
    \<and> events (t_exit st') = events st' @ Ran_call (delete_namespace object) # map Ran_call (t_cleanups st)"
proof -
  note k = Run_prepare_cluster [OF assms(1)]
  note ev = Run_prepare_events [OF assms(1)]
  show ?thesis
    using assms k ev
    by (cases r)
      (auto simp add: Run_setup_def Run_namespace_def Let_def emit_def t_Cleanup_def t_exit_def)
qed

theorem cleanup_registered_before_create_witness:
  "Run_setup example_collaborators (example_processor False None []) None [''default''] =
     Inl \<lparr>cluster_state = [''default''], ctx_bindings = [(''namespace'', ''chainsaw'')],
          nspacer = Some ''chainsaw'',
          t_cleanups = [delete_namespace ''chainsaw'', SetEndTime],
          events = [SetStartTime_call, Cleanup_call SetEndTime, Get_call ''chainsaw'',
                    Cleanup_call (delete_namespace ''chainsaw''), Create_call ''chainsaw'',
                    FailNow_call]\<rparr>
   \<and> events (t_exit \<lparr>cluster_state = [''default''],
          ctx_bindings = [(''namespace'', ''chainsaw'')], nspacer = Some ''chainsaw'',
          t_cleanups = [delete_namespace ''chainsaw'', SetEndTime],
          events = [SetStartTime_call, Cleanup_call SetEndTime, Get_call ''chainsaw'',
                    Cleanup_call (delete_namespace ''chainsaw''), Create_call ''chainsaw'',
                    FailNow_call]\<rparr>) =
       [SetStartTime_call, Cleanup_call SetEndTime, Get_call ''chainsaw'',
        Cleanup_call (delete_namespace ''chainsaw''), Create_call ''chainsaw'', FailNow_call,
        Ran_call (delete_namespace ''chainsaw''), Ran_call SetEndTime]"
proof -
  have prep: "Run_prepare example_collaborators (example_processor False None []) None [''default''] =
      Inr (\<lparr>cluster_state = [''default''], ctx_bindings = [(''namespace'', ''chainsaw'')],
            nspacer = Some ''chainsaw'', t_cleanups = [SetEndTime],
            events = [SetStartTime_call, Cleanup_call SetEndTime]\<rparr>,
           Some (example_client False, ''chainsaw''))"
    by (simp add: Run_prepare_def example_collaborators_def example_processor_def
        emit_def t_Cleanup_def Let_def)
  have fetch: "Get (example_client False) [''default''] ''chainsaw'' = Some NotFound"
    by (simp add: example_client_def)
  have not_found: "errors_IsNotFound NotFound"
    by simp
  have policy: "\<not> cleanup_Skip example_collaborators
      (Cleanup_SkipDelete (config (example_processor False None [] :: (string, string, unit, string list) testsProcessor)))"
    by (simp add: example_collaborators_def example_processor_def)
  have create: "Create (example_client False) [''default''] ''chainsaw'' =
      (Some (Other ''forbidden''), [''default''])"
    by (simp add: example_client_def)
  from cleanup_registered_before_create [OF prep fetch not_found policy create]
  have "\<exists>st'. Run_setup example_collaborators (example_processor False None []) None [''default'']
        = Inl st'
      \<and> t_cleanups st' = [delete_namespace ''chainsaw'', SetEndTime]
      \<and> events st' =
        [SetStartTime_call, Cleanup_call SetEndTime, Get_call ''chainsaw'',
         Cleanup_call (delete_namespace ''chainsaw''), Create_call ''chainsaw'', FailNow_call]
      \<and> events (t_exit st') =
        [SetStartTime_call, Cleanup_call SetEndTime, Get_call ''chainsaw'',
         Cleanup_call (delete_namespace ''chainsaw''), Create_call ''chainsaw'', FailNow_call,
         Ran_call (delete_namespace ''chainsaw''), Ran_call SetEndTime]"
    by auto
  moreover
  have "Run_setup example_collaborators (example_processor False None []) None [''default''] =
     Inl \<lparr>cluster_state = [''default''], ctx_bindings = [(''namespace'', ''chainsaw'')],
          nspacer = Some ''chainsaw'',
          t_cleanups = [delete_namespace ''chainsaw'', SetEndTime],
          events = [SetStartTime_call, Cleanup_call SetEndTime, Get_call ''chainsaw'',
                    Cleanup_call (delete_namespace ''chainsaw''), Create_call ''chainsaw'',
                    FailNow_call]\<rparr>"
    using prep fetch create
    by (simp add: Run_setup_def Run_namespace_def emit_def t_Cleanup_def
        example_collaborators_def example_processor_def Let_def)
  ultimately show ?thesis
    by auto
qed

subsection \<open>Steps of a run\<close>

lemmas step_defs =
  spawn_def begin_body_def SkipNow_def processor_returns_def run_cleanup_def
  run_failfast_cleanup_def run_summary_cleanup_def IncSkipped_def IncFailed_def IncPassed_def
  on_t_def log_def Let_def

lemma step_length:
  "step FailFast insts a st = Some st' \<Longrightarrow> length (ts st') = length (ts st)"
  by (cases a)
    (auto simp add: step_defs split: if_splits option.splits list.splits closure.splits)

lemma step_counters_None:
  "step FailFast insts a st = Some st' \<Longrightarrow> (counters st' = None) = (counters st = None)"
  by (cases a)
    (auto simp add: step_defs split: if_splits option.splits list.splits closure.splits)

lemma step_flag_mono:
  "step FailFast insts a st = Some st' \<Longrightarrow> shouldFailFast st \<Longrightarrow> shouldFailFast st'"
  by (cases a)
    (auto simp add: step_defs split: if_splits option.splits list.splits closure.splits)

lemma step_other_t:
  "step FailFast insts a st = Some st' \<Longrightarrow> actor a \<noteq> k \<Longrightarrow> ts st' ! k = ts st ! k"
  by (cases a)
    (auto simp add: step_defs split: if_splits option.splits list.splits closure.splits)

lemma step_other_calls:
  "step FailFast insts a st = Some st' \<Longrightarrow> actor a \<noteq> k \<Longrightarrow> calls_of k st' = calls_of k st"
  by (cases a)
    (auto simp add: step_defs calls_of_def split: if_splits option.splits list.splits closure.splits)

lemma on_t_simps [simp]:
  "ts (on_t k f st) = (ts st)[k := f (ts st ! k)]"
  "calls (on_t k f st) = calls st"
  "counters (on_t k f st) = counters st"
  "shouldFailFast (on_t k f st) = shouldFailFast st"
  by (simp_all add: on_t_def)

lemma log_simps [simp]:
  "ts (log k c st) = ts st"
  "calls (log k c st) = calls st @ [(k, c)]"
  "counters (log k c st) = counters st"
  "shouldFailFast (log k c st) = shouldFailFast st"
  by (simp_all add: log_def)

lemma calls_of_simps [simp]:
  "calls_of k (log j c st) = (if j = k then calls_of k st @ [c] else calls_of k st)"
  "calls_of k (on_t j f st) = calls_of k st"
  "calls_of k (st\<lparr>shouldFailFast := b\<rparr>) = calls_of k st"
  "calls_of k (st\<lparr>counters := x\<rparr>) = calls_of k st"
  by (simp_all add: calls_of_def)

lemma Inc_simps [simp]:
  "ts (IncSkipped k st) = ts st"
  "ts (IncFailed k st) = ts st"
  "ts (IncPassed k st) = ts st"
  "shouldFailFast (IncSkipped k st) = shouldFailFast st"
  "shouldFailFast (IncFailed k st) = shouldFailFast st"
  "shouldFailFast (IncPassed k st) = shouldFailFast st"
  "calls_of j (IncSkipped k st) = (if k = j then calls_of j st @ [IncSkipped_call] else calls_of j st)"
  "calls_of j (IncFailed k st) = (if k = j then calls_of j st @ [IncFailed_call] else calls_of j st)"
  "calls_of j (IncPassed k st) = (if k = j then calls_of j st @ [IncPassed_call] else calls_of j st)"
  "(counters (IncSkipped k st) = None) = (counters st = None)"
  "(counters (IncFailed k st) = None) = (counters st = None)"
  "(counters (IncPassed k st) = None) = (counters st = None)"
  by (simp_all add: IncSkipped_def IncFailed_def IncPassed_def)

lemma run_summary_cleanup_simps [simp]:
  "ts (run_summary_cleanup k st) = ts st"
  "shouldFailFast (run_summary_cleanup k st) = shouldFailFast st"
  "calls_of j (run_summary_cleanup k st) =
     (if k = j then calls_of j st @ [verdict (ts st ! k)] else calls_of j st)"
  "(counters (run_summary_cleanup k st) = None) = (counters st = None)"
  by (simp_all add: run_summary_cleanup_def verdict_def)

lemma run_failfast_cleanup_simps [simp]:
  "ts (run_failfast_cleanup k st) = ts st"
  "shouldFailFast (run_failfast_cleanup k st) = (shouldFailFast st \<or> t_failed (ts st ! k))"
  "calls_of j (run_failfast_cleanup k st) =
     (if k = j \<and> t_failed (ts st ! k) then calls_of j st @ [Store_call] else calls_of j st)"
  "counters (run_failfast_cleanup k st) = counters st"
  by (simp_all add: run_failfast_cleanup_def)

lemma SkipNow_simps [simp]:
  "ts (SkipNow k st) = (ts st)[k := (ts st ! k)\<lparr>t_skipped := True, phase := Exiting\<rparr>]"
  "shouldFailFast (SkipNow k st) = shouldFailFast st"
  "calls_of j (SkipNow k st) = (if k = j then calls_of j st @ [SkipNow_call] else calls_of j st)"
  "counters (SkipNow k st) = counters st"
  by (simp_all add: SkipNow_def)

lemma spawn_simps [simp]:
  "ts (spawn k st) = (ts st)[k := (ts st ! k)\<lparr>t_cleanup :=
      (if counters st \<noteq> None then [summary_cleanup] else []) @ failfast_cleanup # t_cleanup (ts st ! k),
      phase := Spawned\<rparr>]"
  "shouldFailFast (spawn k st) = shouldFailFast st"
  "calls_of j (spawn k st) = calls_of j st"
  "counters (spawn k st) = counters st"
  by (simp_all add: spawn_def Let_def)

lemma processor_returns_simps [simp]:
  "ts (processor_returns k f sk st) =
     (ts st)[k := (ts st ! k)\<lparr>t_failed := f, t_skipped := sk, phase := Exiting\<rparr>]"
  "shouldFailFast (processor_returns k f sk st) = shouldFailFast st"
  "calls_of j (processor_returns k f sk st) = calls_of j st"
  "counters (processor_returns k f sk st) = counters st"
  by (simp_all add: processor_returns_def)

lemma begin_body_simps:
  "ts (begin_body FailFast inst tt k st) =
     (ts st)[k := (if skips FailFast tt st then (ts st ! k)\<lparr>t_skipped := True, phase := Exiting\<rparr>
                   else (ts st ! k)\<lparr>phase := Running\<rparr>)]"
  "shouldFailFast (begin_body FailFast inst tt k st) = shouldFailFast st"
  "counters (begin_body FailFast inst tt k st) = counters st"
  "j \<noteq> k \<Longrightarrow> calls_of j (begin_body FailFast inst tt k st) = calls_of j st"
  "filter is_Inc (calls_of k (begin_body FailFast inst tt k st)) = filter is_Inc (calls_of k st)"
  "filter is_processor_Run (calls_of k (begin_body FailFast inst tt k st)) =
     filter is_processor_Run (calls_of k st)
       @ (if skips FailFast tt st then [] else [processor_Run_call (info inst tt)])"
  "Store_call \<in> set (calls_of k (begin_body FailFast inst tt k st)) \<longleftrightarrow> Store_call \<in> set (calls_of k st)"
  by (auto simp add: begin_body_def skips_def Let_def)

lemma inv_T_frame:
  assumes "inv_T k st" and "ts st' ! k = ts st ! k" and "calls_of k st' = calls_of k st"
    and "(counters st' = None) = (counters st = None)"
    and "shouldFailFast st \<Longrightarrow> shouldFailFast st'"
  shows "inv_T k st'"
  using assms
  by (auto simp add: inv_T_def incs_def runs_def registered_def Let_def split: phase.splits)

lemma is_Inc_verdict [simp]: "is_Inc (verdict t)"
  by (simp add: verdict_def)

lemma verdict_not_Store [simp]: "verdict t \<noteq> Store_call" "Store_call \<noteq> verdict t"
  by (simp_all add: verdict_def)

lemma verdict_cleanup [simp]: "verdict (t\<lparr>t_cleanup := x, phase := y\<rparr>) = verdict t"
  by (simp add: verdict_def)

lemma inv_T_Spawn:
  assumes "k < length (ts st)" and "phase (ts st ! k) = NotStarted" and "inv_T k st"
  shows "inv_T k (spawn k st)"
  using assms by (auto simp add: inv_T_def incs_def runs_def registered_def Let_def)

lemma inv_T_Begin:
  assumes "k < length (ts st)" and "phase (ts st ! k) = Spawned" and "inv_T k st"
  shows "inv_T k (begin_body FailFast inst tt k st)"
  using assms
  by (auto simp add: inv_T_def incs_def runs_def registered_def begin_body_simps Let_def)

lemma inv_T_Return:
  assumes "k < length (ts st)" and "phase (ts st ! k) = Running" and "inv_T k st"
  shows "inv_T k (processor_returns k f sk st)"
  using assms by (auto simp add: inv_T_def incs_def runs_def registered_def Let_def)

lemma inv_T_Cleanup:
  assumes "k < length (ts st)" and "phase (ts st ! k) = Exiting" and "inv_T k st"
    and "run_cleanup k st = Some st'"
  shows "inv_T k st'"
  using assms
  by (auto simp add: inv_T_def incs_def runs_def registered_def run_cleanup_def Let_def
      split: if_splits list.splits closure.splits)

lemma step_inv_T:
  assumes "step FailFast insts a st = Some st'" and "k < length (ts st)" and "inv_T k st"
  shows "inv_T k st'"
proof (cases "actor a = k")
  case False
  show ?thesis
    using assms(3) step_other_t [OF assms(1) False] step_other_calls [OF assms(1) False]
      step_counters_None [OF assms(1)] step_flag_mono [OF assms(1)]
    by (rule inv_T_frame)
next
  case True
  show ?thesis
  proof (cases a)
    case (Spawn j)
    with True assms show ?thesis by (auto split: if_splits intro: inv_T_Spawn)
  next
    case (Begin j)
    with True assms show ?thesis by (auto split: if_splits option.splits intro: inv_T_Begin)
  next
    case (Return j f sk)
    with True assms show ?thesis by (auto split: if_splits intro: inv_T_Return)
  next
    case (Cleanup j)
    with True assms show ?thesis by (auto split: if_splits intro: inv_T_Cleanup)
  qed
qed

lemma exec_invariant:
  assumes "exec FailFast insts as st = Some st'" and "P st"
    and "\<And>a s s'. step FailFast insts a s = Some s' \<Longrightarrow> P s \<Longrightarrow> P s'"
  shows "P st'"
  using assms by (induction as arbitrary: st) (auto split: option.splits)

lemma exec_append:
  "exec FailFast insts (as @ bs) st =
     (case exec FailFast insts as st of None \<Rightarrow> None | Some st' \<Rightarrow> exec FailFast insts bs st')"
  by (induction as arbitrary: st) (auto split: option.splits)

lemma exec_length:
  "exec FailFast insts as st = Some st' \<Longrightarrow> length (ts st') = length (ts st)"
  by (induction as arbitrary: st) (auto split: option.splits dest: step_length)

lemma exec_flag_mono:
  "exec FailFast insts as st = Some st' \<Longrightarrow> shouldFailFast st \<Longrightarrow> shouldFailFast st'"
  by (induction as arbitrary: st) (auto split: option.splits dest: step_flag_mono)

lemma exec_counters_None:
  "exec FailFast insts as st = Some st' \<Longrightarrow> (counters st' = None) = (counters st = None)"
  by (induction as arbitrary: st) (auto split: option.splits dest: step_counters_None)

lemma exec_inv_T:
  assumes "exec FailFast insts as st = Some st'" and "k < length (ts st)" and "inv_T k st"
  shows "inv_T k st'"
proof -
  have "k < length (ts st') \<and> inv_T k st'"
    using assms(1)
  proof (rule exec_invariant)
    show "k < length (ts st) \<and> inv_T k st" using assms by simp
  next
    fix a s s'
    assume "step FailFast insts a s = Some s'" and "k < length (ts s) \<and> inv_T k s"
    then show "k < length (ts s') \<and> inv_T k s'"
      using step_length [of FailFast insts a s s'] step_inv_T [of FailFast insts a s s' k] by simp
  qed
  then show ?thesis by simp
qed

lemma start_state_simps [simp]:
  "shouldFailFast (start_state s n) = False"
  "counters (start_state s n) = s"
  "length (ts (start_state s n)) = n"
  "calls (start_state s n) = []"
  "calls_of k (start_state s n) = []"
  "k < n \<Longrightarrow> ts (start_state s n) ! k =
     \<lparr>phase = NotStarted, t_failed = False, t_skipped = False, t_cleanup = []\<rparr>"
  by (simp_all add: start_state_def calls_of_def)

lemma inv_T_start: "k < n \<Longrightarrow> inv_T k (start_state s n)"
  by (simp add: inv_T_def incs_def runs_def Let_def)

lemma reachable_inv_T:
  "exec FailFast insts as (start_state s n) = Some st \<Longrightarrow> k < n \<Longrightarrow> inv_T k st"
  using exec_inv_T [of FailFast insts as "start_state s n" st k] inv_T_start [of k n s] by simp

lemma run_cleanup_runs:
  "run_cleanup k st = Some st' \<Longrightarrow>
     filter is_processor_Run (calls_of j st') = filter is_processor_Run (calls_of j st)"
  by (auto simp add: run_cleanup_def Let_def verdict_def split: list.splits closure.splits)

lemma run_cleanup_t:
  "run_cleanup k st = Some st' \<Longrightarrow> k < length (ts st) \<Longrightarrow>
     t_failed (ts st' ! k) = t_failed (ts st ! k) \<and> t_skipped (ts st' ! k) = t_skipped (ts st ! k)
     \<and> (phase (ts st' ! k) = Exiting \<or> phase (ts st' ! k) = Done)"
  by (auto simp add: run_cleanup_def Let_def split: list.splits closure.splits)

lemma step_has_to_skip:
  "step FailFast insts a st = Some st' \<Longrightarrow> has_to_skip FailFast insts k st
     \<Longrightarrow> has_to_skip FailFast insts k st'"
  by (auto simp add: has_to_skip_def dest: step_flag_mono)

lemma step_skipping:
  assumes "step FailFast insts a st = Some st'" and "k < length (ts st)"
    and "has_to_skip FailFast insts k st" and "skipping k st"
  shows "skipping k st'"
proof (cases "actor a = k")
  case False
  show ?thesis
    using assms(4) step_other_t [OF assms(1) False] step_other_calls [OF assms(1) False]
    by (simp add: skipping_def runs_def)
next
  case True
  show ?thesis
  proof (cases a)
    case (Spawn j)
    with True assms show ?thesis
      by (auto simp add: skipping_def runs_def split: if_splits)
  next
    case (Begin j)
    with True assms show ?thesis
      by (auto simp add: skipping_def runs_def has_to_skip_def explicit_Skip_def skips_def
          begin_body_simps split: if_splits option.splits)
  next
    case (Return j f sk)
    with True assms show ?thesis
      by (auto simp add: skipping_def split: if_splits)
  next
    case (Cleanup j)
    with True assms have rc: "run_cleanup k st = Some st'" and ph: "phase (ts st ! k) = Exiting"
      by (auto split: if_splits)
    show ?thesis
      using assms(4) ph run_cleanup_runs [OF rc, of k] run_cleanup_t [OF rc assms(2)]
      by (auto simp add: skipping_def runs_def)
  qed
qed

lemma exec_skipping:
  assumes "exec FailFast insts as st = Some st'" and "k < length (ts st)"
    and "has_to_skip FailFast insts k st" and "skipping k st"
  shows "skipping k st'"
proof -
  have "k < length (ts st') \<and> has_to_skip FailFast insts k st' \<and> skipping k st'"
    using assms(1)
  proof (rule exec_invariant)
    show "k < length (ts st) \<and> has_to_skip FailFast insts k st \<and> skipping k st"
      using assms by simp
  next
    fix a s s'
    assume "step FailFast insts a s = Some s'"
      and "k < length (ts s) \<and> has_to_skip FailFast insts k s \<and> skipping k s"
    then show "k < length (ts s') \<and> has_to_skip FailFast insts k s' \<and> skipping k s'"
      using step_length [of FailFast insts a s s'] step_has_to_skip [of FailFast insts a s s' k]
        step_skipping [of FailFast insts a s s' k]
      by simp
  qed
  then show ?thesis by simp
qed

lemma step_ended:
  assumes "step FailFast insts a st = Some st'" and "k < length (ts st)" and "ended k f sk st"
  shows "ended k f sk st'"
proof (cases "actor a = k")
  case False
  show ?thesis
    using assms(3) step_other_t [OF assms(1) False] by (simp add: ended_def)
next
  case True
  show ?thesis
  proof (cases a)
    case (Spawn j)
    with True assms show ?thesis by (auto simp add: ended_def split: if_splits)
  next
    case (Begin j)
    with True assms show ?thesis by (auto simp add: ended_def split: if_splits)
  next
    case (Return j f' sk')
    with True assms show ?thesis by (auto simp add: ended_def split: if_splits)
  next
    case (Cleanup j)
    with True assms have rc: "run_cleanup k st = Some st'"
      by (auto split: if_splits)
    show ?thesis
      using assms(3) run_cleanup_t [OF rc assms(2)] by (auto simp add: ended_def)
  qed
qed

lemma exec_ended:
  assumes "exec FailFast insts as st = Some st'" and "k < length (ts st)" and "ended k f sk st"
  shows "ended k f sk st'"
proof -
  have "k < length (ts st') \<and> ended k f sk st'"
    using assms(1)
  proof (rule exec_invariant)
    show "k < length (ts st) \<and> ended k f sk st" using assms by simp
  next
    fix a s s'
    assume "step FailFast insts a s = Some s'" and "k < length (ts s) \<and> ended k f sk s"
    then show "k < length (ts s') \<and> ended k f sk s'"
      using step_length [of FailFast insts a s s'] step_ended [of FailFast insts a s s' k f sk]
      by simp
  qed
  then show ?thesis by simp
qed

lemma step_calls:
  "step FailFast insts a st = Some st' \<Longrightarrow>
     \<exists>new. calls st' = calls st @ new \<and> (\<forall>x \<in> set new. fst x = actor a)"
  by (cases a)
    (auto simp add: step_defs split: if_splits option.splits list.splits closure.splits)

lemma step_actor: "step FailFast insts a st = Some st' \<Longrightarrow> actor a < length (ts st)"
  by (cases a) (auto split: if_splits)

lemma tally_simps [simp]:
  "tally c (log k x st) = tally c st + (if x = c then 1 else 0)"
  "tally c (on_t k f st) = tally c st"
  "tally c (st\<lparr>counters := y\<rparr>) = tally c st"
  "tally c (st\<lparr>shouldFailFast := b\<rparr>) = tally c st"
  by (simp_all add: tally_def)

lemma counted_Begin:
  "counted c0 st \<Longrightarrow> counted c0 (begin_body FailFast inst tt k st)"
  by (auto simp add: counted_def begin_body_def SkipNow_def Let_def)

lemma counted_Cleanup:
  "counted c0 st \<Longrightarrow> run_cleanup k st = Some st' \<Longrightarrow> counted c0 st'"
  by (auto simp add: counted_def run_cleanup_def run_failfast_cleanup_def run_summary_cleanup_def
      IncSkipped_def IncFailed_def IncPassed_def Let_def split: list.splits closure.splits)

lemma step_counted:
  assumes "step FailFast insts a st = Some st'" and "counted c0 st"
  shows "counted c0 st'"
proof (cases a)
  case (Spawn j)
  with assms show ?thesis by (auto simp add: counted_def spawn_def split: if_splits)
next
  case (Begin j)
  with assms show ?thesis by (auto split: if_splits option.splits intro: counted_Begin)
next
  case (Return j f sk)
  with assms show ?thesis by (auto simp add: counted_def processor_returns_def split: if_splits)
next
  case (Cleanup j)
  with assms show ?thesis by (auto split: if_splits intro: counted_Cleanup)
qed

lemma reachable_counted:
  assumes "exec FailFast insts as (start_state (Some c0) n) = Some st"
  shows "counted c0 st"
  using assms
proof (rule exec_invariant)
  show "counted c0 (start_state (Some c0) n)"
    by (simp add: counted_def tally_def)
next
  fix a s s'
  assume "step FailFast insts a s = Some s'" and "counted c0 s"
  then show "counted c0 s'" by (rule step_counted)
qed

lemma reachable_bounded:
  assumes "exec FailFast insts as (start_state s n) = Some st"
  shows "bounded st"
  using assms
proof (rule exec_invariant)
  show "bounded (start_state s n)" by (simp add: bounded_def)
next
  fix a s s'
  assume st: "step FailFast insts a s = Some s'" and "bounded s"
  then show "bounded s'"
    using step_calls [OF st] step_actor [OF st] step_length [OF st]
    by (fastforce simp add: bounded_def)
qed

lemma count_by_actor:
  "\<forall>x \<in> set xs. fst x < (n::nat) \<Longrightarrow>
     length (filter (\<lambda>x. P (snd x)) xs) =
       (\<Sum>k<n. length (filter P (map snd (filter (\<lambda>(j, c). j = k) xs))))"
proof (induction xs)
  case Nil
  then show ?case by simp
next
  case (Cons x xs)
  obtain j c where x: "x = (j, c)" by (cases x)
  from Cons.prems x have j: "j < n" by simp
  have delta: "(\<Sum>k\<in>{..<n}. if j = k then (1::nat) else 0) = (if j \<in> {..<n} then 1 else 0)"
    by (rule sum.delta') simp
  have one: "(\<Sum>k<n. if j = k \<and> P c then (1::nat) else 0) = (if P c then 1 else 0)"
  proof (cases "P c")
    case True
    with delta j show ?thesis by simp
  next
    case False
    then show ?thesis by simp
  qed
  have "(\<Sum>k<n. length (filter P (map snd (filter (\<lambda>(j, c). j = k) (x # xs))))) =
        (\<Sum>k<n. length (filter P (map snd (filter (\<lambda>(j, c). j = k) xs)))
                + (if j = k \<and> P c then 1 else 0))"
    by (rule sum.cong) (auto simp add: x)
  also have "\<dots> = (\<Sum>k<n. length (filter P (map snd (filter (\<lambda>(j, c). j = k) xs))))
                + (if P c then 1 else 0)"
    by (simp add: sum.distrib one)
  finally show ?case
    using Cons x by simp
qed

lemma tally_Inc:
  "tally IncPassed_call st + tally IncFailed_call st + tally IncSkipped_call st
     = length (filter (\<lambda>x. is_Inc (snd x)) (calls st))"
  unfolding tally_def
proof (induction "calls st" arbitrary: st)
  case Nil
  then show ?case by simp
next
  case (Cons x xs)
  have "xs = calls (st\<lparr>calls := xs\<rparr>)" by simp
  from Cons(1) [OF this] Cons(2) [symmetric] show ?case
    by (cases "snd x") auto
qed

lemma incs_total:
  assumes "exec FailFast insts as (start_state (Some c0) n) = Some st"
    and "\<forall>k<n. phase (ts st ! k) = Done"
  shows "tally IncPassed_call st + tally IncFailed_call st + tally IncSkipped_call st = n"
proof -
  have len: "length (ts st) = n"
    using exec_length [OF assms(1)] by simp
  have some: "counters st \<noteq> None"
    using exec_counters_None [OF assms(1)] by simp
  have each: "length (incs k st) = 1" if "k < n" for k
    using reachable_inv_T [OF assms(1) that] assms(2) that some
    by (auto simp add: inv_T_def Let_def)
  have "length (filter (\<lambda>x. is_Inc (snd x)) (calls st)) = (\<Sum>k<n. length (incs k st))"
    using count_by_actor [of "calls st" n is_Inc] reachable_bounded [OF assms(1)] len
    by (simp add: bounded_def incs_def calls_of_def)
  also have "\<dots> = (\<Sum>k<n. 1)"
    by (rule sum.cong) (simp_all add: each)
  finally show ?thesis
    by (simp add: tally_Inc)
qed

lemma exec_counts:
  assumes "exec FailFast insts as (start_state (Some c0) n) = Some st"
  shows "\<exists>c. counters st = Some c
    \<and> Passed c = Passed c0 + tally IncPassed_call st
    \<and> Failed c = Failed c0 + tally IncFailed_call st
    \<and> Skipped c = Skipped c0 + tally IncSkipped_call st
    \<and> (\<forall>k<n. length (incs k st) \<le> 1
          \<and> (phase (ts st ! k) = Done \<longrightarrow> incs k st = [verdict (ts st ! k)])
          \<and> (phase (ts st ! k) = NotStarted \<or> phase (ts st ! k) = Spawned
               \<or> phase (ts st ! k) = Running \<longrightarrow> incs k st = []))
    \<and> ((\<forall>k<n. phase (ts st ! k) = Done) \<longrightarrow>
          Passed c + Failed c + Skipped c = Passed c0 + Failed c0 + Skipped c0 + n)
    \<and> (\<forall>k<n. k < length insts \<and> explicit_Skip (insts ! k) \<and> phase (ts st ! k) = Done \<longrightarrow>
          incs k st = [IncSkipped_call] \<and> runs k st = [])"
proof -
  from reachable_counted [OF assms] obtain c where c: "counters st = Some c"
    and p: "Passed c = Passed c0 + tally IncPassed_call st"
    and f: "Failed c = Failed c0 + tally IncFailed_call st"
    and s: "Skipped c = Skipped c0 + tally IncSkipped_call st"
    by (auto simp add: counted_def)
  have once: "length (incs k st) \<le> 1
      \<and> (phase (ts st ! k) = Done \<longrightarrow> incs k st = [verdict (ts st ! k)])
      \<and> (phase (ts st ! k) = NotStarted \<or> phase (ts st ! k) = Spawned
           \<or> phase (ts st ! k) = Running \<longrightarrow> incs k st = [])" if "k < n" for k
    using reachable_inv_T [OF assms that] c
    by (cases "phase (ts st ! k)") (auto simp add: inv_T_def Let_def)
  have total: "Passed c + Failed c + Skipped c = Passed c0 + Failed c0 + Skipped c0 + n"
    if "\<forall>k<n. phase (ts st ! k) = Done"
    using incs_total [OF assms that] p f s by simp
  have skip: "incs k st = [IncSkipped_call] \<and> runs k st = []"
    if "k < n" and "k < length insts" and "explicit_Skip (insts ! k)"
      and "phase (ts st ! k) = Done" for k
  proof -
    have "skipping k (start_state (Some c0) n)"
      using that(1) by (simp add: skipping_def runs_def)
    moreover have "has_to_skip FailFast insts k (start_state (Some c0) n)"
      using that(2,3) by (simp add: has_to_skip_def)
    ultimately have "skipping k st"
      using exec_skipping [OF assms, of k] that(1) by simp
    with that(4) have "t_skipped (ts st ! k)" and "runs k st = []"
      by (auto simp add: skipping_def)
    with once [OF that(1)] that(4) show ?thesis
      by (simp add: verdict_def)
  qed
  show ?thesis
    using c p f s once total skip by blast
qed

lemma exec_flag_protocol:
  assumes "exec True insts as (start_state s n) = Some st"
    and "exec True insts bs st = Some st'"
    and "k < n"
  shows "(shouldFailFast st \<longrightarrow> shouldFailFast st')
    \<and> (phase (ts st ! k) = Done \<and> t_failed (ts st ! k) \<longrightarrow>
          shouldFailFast st \<and> Store_call \<in> set (calls_of k st))
    \<and> (phase (ts st ! k) \<noteq> Done \<longrightarrow> Store_call \<notin> set (calls_of k st))
    \<and> (shouldFailFast st \<and> (phase (ts st ! k) = NotStarted \<or> phase (ts st ! k) = Spawned)
          \<and> phase (ts st' ! k) = Done \<longrightarrow>
          t_skipped (ts st' ! k) \<and> \<not> t_failed (ts st' ! k) \<and> runs k st' = []
          \<and> (s \<noteq> None \<longrightarrow> incs k st' = [IncSkipped_call]))
    \<and> (phase (ts st ! k) = Running \<longrightarrow>
          (\<forall>f sk. \<exists>st1. step True insts (Return k f sk) st = Some st1
              \<and> shouldFailFast st1 = shouldFailFast st)
          \<and> (\<forall>f sk cs st2. exec True insts (Return k f sk # cs) st = Some st2 \<longrightarrow>
                t_failed (ts st2 ! k) = f \<and> t_skipped (ts st2 ! k) = sk
                \<and> (phase (ts st2 ! k) = Done \<and> s \<noteq> None \<longrightarrow>
                      incs k st2 = [verdict (ts st2 ! k)])))"
proof -
  have len: "length (ts st) = n"
    using exec_length [OF assms(1)] by simp
  have inv: "inv_T k st"
    by (rule reachable_inv_T [OF assms(1) assms(3)])
  have mono: "shouldFailFast st \<longrightarrow> shouldFailFast st'"
    using exec_flag_mono [OF assms(2)] by simp
  have set_at_cleanup: "phase (ts st ! k) = Done \<and> t_failed (ts st ! k) \<longrightarrow>
      shouldFailFast st \<and> Store_call \<in> set (calls_of k st)"
    using inv by (auto simp add: inv_T_def Let_def)
  have not_before: "phase (ts st ! k) \<noteq> Done \<longrightarrow> Store_call \<notin> set (calls_of k st)"
    using inv by (cases "phase (ts st ! k)") (auto simp add: inv_T_def Let_def)
  have later: "t_skipped (ts st' ! k) \<and> \<not> t_failed (ts st' ! k) \<and> runs k st' = []
      \<and> (s \<noteq> None \<longrightarrow> incs k st' = [IncSkipped_call])"
    if flag: "shouldFailFast st"
      and early: "phase (ts st ! k) = NotStarted \<or> phase (ts st ! k) = Spawned"
      and fin: "phase (ts st' ! k) = Done"
  proof -
    have "skipping k st"
      using inv early by (auto simp add: inv_T_def skipping_def Let_def)
    moreover have "has_to_skip True insts k st"
      using flag by (simp add: has_to_skip_def)
    ultimately have sk: "skipping k st'"
      using exec_skipping [OF assms(2), of k] assms(3) len by simp
    have "exec True insts (as @ bs) (start_state s n) = Some st'"
      using assms(1,2) by (simp add: exec_append)
    then have inv': "inv_T k st'" and none: "(counters st' = None) = (s = None)"
      using reachable_inv_T [of True insts "as @ bs" s n st' k] assms(3)
        exec_counters_None [of True insts "as @ bs" "start_state s n" st']
      by simp_all
    from sk fin have a: "t_skipped (ts st' ! k)" "\<not> t_failed (ts st' ! k)" "runs k st' = []"
      by (auto simp add: skipping_def)
    moreover have "s \<noteq> None \<longrightarrow> incs k st' = [IncSkipped_call]"
      using inv' none fin a(1) by (auto simp add: inv_T_def Let_def verdict_def)
    ultimately show ?thesis by simp
  qed
  have running: "(\<forall>f sk. \<exists>st1. step True insts (Return k f sk) st = Some st1
              \<and> shouldFailFast st1 = shouldFailFast st)
          \<and> (\<forall>f sk cs st2. exec True insts (Return k f sk # cs) st = Some st2 \<longrightarrow>
                t_failed (ts st2 ! k) = f \<and> t_skipped (ts st2 ! k) = sk
                \<and> (phase (ts st2 ! k) = Done \<and> s \<noteq> None \<longrightarrow>
                      incs k st2 = [verdict (ts st2 ! k)]))"
    if run: "phase (ts st ! k) = Running"
  proof (intro conjI allI impI)
    fix f sk
    show "\<exists>st1. step True insts (Return k f sk) st = Some st1
        \<and> shouldFailFast st1 = shouldFailFast st"
      using run assms(3) len by simp
  next
    fix f sk cs st2
    assume ex: "exec True insts (Return k f sk # cs) st = Some st2"
    then have rest: "exec True insts cs (processor_returns k f sk st) = Some st2"
      using run assms(3) len by simp
    have "ended k f sk (processor_returns k f sk st)"
      using assms(3) len by (simp add: ended_def)
    then have "ended k f sk st2"
      using exec_ended [OF rest, of k f sk] assms(3) len by simp
    then show "t_failed (ts st2 ! k) = f" and "t_skipped (ts st2 ! k) = sk"
      by (simp_all add: ended_def)
  next
    fix f sk cs st2
    assume ex: "exec True insts (Return k f sk # cs) st = Some st2"
      and fin: "phase (ts st2 ! k) = Done \<and> s \<noteq> None"
    have "exec True insts (as @ Return k f sk # cs) (start_state s n) = Some st2"
      using assms(1) ex by (simp add: exec_append)
    then have "inv_T k st2" and "(counters st2 = None) = (s = None)"
      using reachable_inv_T [of True insts "as @ Return k f sk # cs" s n st2 k] assms(3)
        exec_counters_None [of True insts "as @ Return k f sk # cs" "start_state s n" st2]
      by simp_all
    with fin show "incs k st2 = [verdict (ts st2 ! k)]"
      by (auto simp add: inv_T_def Let_def)
  qed
  show ?thesis
    using mono set_at_cleanup not_before later running by blast
qed

lemma Run_tests_exec:
  "Run_tests names_Test mem p as =
     exec (Execution_FailFast (config p)) (fst (schedule names_Test mem 0 (tests p))) as
       (start_state (summary p) (length (fst (schedule names_Test mem 0 (tests p)))))"
  by (simp add: Run_tests_def Let_def)

lemma exec_single: "exec FailFast insts [a] st = step FailFast insts a st"
  by (simp split: option.splits)

lemma exec_no_summary:
  assumes "exec FailFast insts as (start_state None n) = Some st"
  shows "counters st = None
    \<and> tally IncPassed_call st = 0 \<and> tally IncFailed_call st = 0 \<and> tally IncSkipped_call st = 0
    \<and> (\<forall>k<n. incs k st = [] \<and> summary_cleanup \<notin> set (t_cleanup (ts st ! k)))"
proof -
  have none: "counters st = None"
    using exec_counters_None [OF assms] by simp
  have len: "length (ts st) = n"
    using exec_length [OF assms] by simp
  have each: "incs k st = [] \<and> summary_cleanup \<notin> set (t_cleanup (ts st ! k))" if "k < n" for k
    using reachable_inv_T [OF assms that] none
    by (cases "phase (ts st ! k)") (auto simp add: inv_T_def registered_def Let_def)
  have "length (filter (\<lambda>x. is_Inc (snd x)) (calls st)) = (\<Sum>k<n. length (incs k st))"
    using count_by_actor [of "calls st" n is_Inc] reachable_bounded [OF assms] len
    by (simp add: bounded_def incs_def calls_of_def)
  also have "\<dots> = (\<Sum>k<n. 0)"
    by (rule sum.cong) (simp_all add: each)
  finally have "tally IncPassed_call st + tally IncFailed_call st + tally IncSkipped_call st = 0"
    by (simp add: tally_Inc)
  with none each show ?thesis
    by simp
qed

subsection \<open>The runs of the small suite\<close>

lemma example_suite_3:
  "example_suite [None, None, None] =
     [\<lparr>inst_name = ''suite'', inst_i = 0, inst_s = 0, inst_test = example_test None\<rparr>,
      \<lparr>inst_name = ''suite'', inst_i = 1, inst_s = 0, inst_test = example_test None\<rparr>,
      \<lparr>inst_name = ''suite'', inst_i = 2, inst_s = 0, inst_test = example_test None\<rparr>]"
  by (simp add: example_suite_def instances_def scenarios_def example_test_def)

lemma example_suite_2:
  "example_suite [None, Some True] =
     [\<lparr>inst_name = ''suite'', inst_i = 0, inst_s = 0, inst_test = example_test None\<rparr>,
      \<lparr>inst_name = ''suite'', inst_i = 1, inst_s = 0, inst_test = example_test (Some True)\<rparr>]"
  by (simp add: example_suite_def instances_def scenarios_def example_test_def)

lemmas example_defs =
  example_test_def start_state_def step_defs info_def numeral_3_eq_3 numeral_2_eq_2

lemma example_instances:
  "fst (schedule (\<lambda>t. Inr ''suite'') example_memory 0 (tests (example_processor creates s flags))) =
     example_suite flags"
  by (simp add: example_processor_def example_suite_def)

lemma example_Run_tests:
  "Run_tests (\<lambda>t. Inr ''suite'') example_memory (example_processor creates s flags) as =
     exec True (example_suite flags) as (start_state s (length (example_suite flags)))"
  by (simp add: Run_tests_exec example_instances) (simp add: example_processor_def)

lemma example_exec_first:
  "exec True (example_suite [None, None, None])
     [Spawn 0, Spawn 1, Begin 0, Begin 1, Return 0 True False, Cleanup 0, Cleanup 0]
     (start_state (Some \<lparr>Passed = 0, Failed = 0, Skipped = 0\<rparr>) 3) = Some example_midrun"
  by (simp add: example_midrun_def example_suite_3 example_defs)

lemma example_exec_rest:
  "exec True (example_suite [None, None, None])
     [Return 1 False False, Cleanup 1, Cleanup 1, Spawn 2, Begin 2, Cleanup 2, Cleanup 2]
     example_midrun = Some example_final"
  by (simp add: example_midrun_def example_final_def example_suite_3 example_defs)

lemma example_exec_skipped:
  "exec True (example_suite [None, Some True])
     [Spawn 0, Spawn 1, Begin 1, Begin 0, Cleanup 1, Return 0 False False, Cleanup 0,
      Cleanup 1, Cleanup 0]
     (start_state (Some \<lparr>Passed = 0, Failed = 0, Skipped = 0\<rparr>) 2) = Some example_skipped"
  by (simp add: example_skipped_def example_suite_2 example_defs)

lemma example_run_first:
  "Run_tests (\<lambda>t. Inr ''suite'') example_memory
     (example_processor True (Some \<lparr>Passed = 0, Failed = 0, Skipped = 0\<rparr>) [None, None, None])
     [Spawn 0, Spawn 1, Begin 0, Begin 1, Return 0 True False, Cleanup 0, Cleanup 0] =
   Some example_midrun"
proof -
  have "length (example_suite [None, None, None]) = 3"
    by (simp add: example_suite_3)
  then show ?thesis
    unfolding example_Run_tests by (simp only: example_exec_first)
qed

lemma example_run_all:
  "Run_tests (\<lambda>t. Inr ''suite'') example_memory
     (example_processor True (Some \<lparr>Passed = 0, Failed = 0, Skipped = 0\<rparr>) [None, None, None])
     ([Spawn 0, Spawn 1, Begin 0, Begin 1, Return 0 True False, Cleanup 0, Cleanup 0] @
      [Return 1 False False, Cleanup 1, Cleanup 1, Spawn 2, Begin 2, Cleanup 2, Cleanup 2]) =
   Some example_final"
proof -
  have "length (example_suite [None, None, None]) = 3"
    by (simp add: example_suite_3)
  then show ?thesis
    unfolding example_Run_tests exec_append
    by (simp only: example_exec_first example_exec_rest option.case)
qed

lemma example_run_skipped:
  "Run_tests (\<lambda>t. Inr ''suite'') example_memory
     (example_processor True (Some \<lparr>Passed = 0, Failed = 0, Skipped = 0\<rparr>) [None, Some True])
     [Spawn 0, Spawn 1, Begin 1, Begin 0, Cleanup 1, Return 0 False False, Cleanup 0,
      Cleanup 1, Cleanup 0] =
   Some example_skipped"
proof -
  have "length (example_suite [None, Some True]) = 2"
    by (simp add: example_suite_2)
  then show ?thesis
    unfolding example_Run_tests by (simp only: example_exec_skipped)
qed

lemma example_run_uncounted:
  "Run_tests (\<lambda>t. Inr ''suite'') example_memory (example_processor True None [None])
     [Spawn 0, Begin 0, Return 0 False False, Cleanup 0] = Some example_uncounted"
  by (simp add: example_Run_tests example_suite_def instances_def scenarios_def example_defs
      example_uncounted_def)

subsection \<open>Outcome counters\<close>

text \<open>
  Claim C9, as amended. In a run of the tests of a processor that has a summary,
  whatever the order of the steps of the instances and however each per-test processor
  leaves its test: the counters are the initial ones plus the increments made so far; an
  instance has made no increment before its body ended, never more than one, and once it
  is finished exactly one, the one of its verdict (skipped if its test reports skipped,
  else failed if it reports failed, else passed); when all instances are finished the
  three counters have grown by the number of instances in total; and an instance with the
  explicit \<open>Skip\<close> flag, once finished, has incremented the skipped counter only and has
  never called its processor. In a run of the tests of a processor without a summary
  there are no counters, no increment is ever made, by any instance, and the summary
  cleanup is among the registered cleanups of no instance.
\<close>

theorem outcome_counted_once:
  assumes "Run_tests names_Test mem p as = Some st"
  shows "(\<forall>c0. summary p = Some c0 \<longrightarrow>
      (\<exists>c. counters st = Some c
        \<and> Passed c = Passed c0 + tally IncPassed_call st
        \<and> Failed c = Failed c0 + tally IncFailed_call st
        \<and> Skipped c = Skipped c0 + tally IncSkipped_call st
        \<and> (\<forall>k < length (fst (schedule names_Test mem 0 (tests p))).
              length (incs k st) \<le> 1
              \<and> (phase (ts st ! k) = Done \<longrightarrow> incs k st = [verdict (ts st ! k)])
              \<and> (phase (ts st ! k) = NotStarted \<or> phase (ts st ! k) = Spawned
                   \<or> phase (ts st ! k) = Running \<longrightarrow> incs k st = []))
        \<and> ((\<forall>k < length (fst (schedule names_Test mem 0 (tests p))). phase (ts st ! k) = Done) \<longrightarrow>
              Passed c + Failed c + Skipped c =
                Passed c0 + Failed c0 + Skipped c0
                  + length (fst (schedule names_Test mem 0 (tests p))))
        \<and> (\<forall>k < length (fst (schedule names_Test mem 0 (tests p))).
              explicit_Skip (fst (schedule names_Test mem 0 (tests p)) ! k)
                \<and> phase (ts st ! k) = Done \<longrightarrow>
              incs k st = [IncSkipped_call] \<and> runs k st = [])))
    \<and> (summary p = None \<longrightarrow>
          counters st = None
          \<and> tally IncPassed_call st = 0 \<and> tally IncFailed_call st = 0
          \<and> tally IncSkipped_call st = 0
          \<and> (\<forall>k < length (fst (schedule names_Test mem 0 (tests p))).
                incs k st = [] \<and> summary_cleanup \<notin> set (t_cleanup (ts st ! k))))"
    (is "_ \<and> (_ \<longrightarrow> ?none)")
proof (rule conjI, rule allI, rule impI)
  fix c0
  assume "summary p = Some c0"
  with assms
  have run: "exec (Execution_FailFast (config p)) (fst (schedule names_Test mem 0 (tests p))) as
      (start_state (Some c0) (length (fst (schedule names_Test mem 0 (tests p))))) = Some st"
    by (simp add: Run_tests_exec)
  from exec_counts [OF run]
  show "\<exists>c. counters st = Some c
        \<and> Passed c = Passed c0 + tally IncPassed_call st
        \<and> Failed c = Failed c0 + tally IncFailed_call st
        \<and> Skipped c = Skipped c0 + tally IncSkipped_call st
        \<and> (\<forall>k < length (fst (schedule names_Test mem 0 (tests p))).
              length (incs k st) \<le> 1
              \<and> (phase (ts st ! k) = Done \<longrightarrow> incs k st = [verdict (ts st ! k)])
              \<and> (phase (ts st ! k) = NotStarted \<or> phase (ts st ! k) = Spawned
                   \<or> phase (ts st ! k) = Running \<longrightarrow> incs k st = []))
        \<and> ((\<forall>k < length (fst (schedule names_Test mem 0 (tests p))). phase (ts st ! k) = Done) \<longrightarrow>
              Passed c + Failed c + Skipped c =
                Passed c0 + Failed c0 + Skipped c0
                  + length (fst (schedule names_Test mem 0 (tests p))))
        \<and> (\<forall>k < length (fst (schedule names_Test mem 0 (tests p))).
              explicit_Skip (fst (schedule names_Test mem 0 (tests p)) ! k)
                \<and> phase (ts st ! k) = Done \<longrightarrow>
              incs k st = [IncSkipped_call] \<and> runs k st = [])"
    by blast
next
  show "summary p = None \<longrightarrow> ?none"
  proof
    assume "summary p = None"
    with assms
    have run: "exec (Execution_FailFast (config p)) (fst (schedule names_Test mem 0 (tests p))) as
        (start_state None (length (fst (schedule names_Test mem 0 (tests p))))) = Some st"
      by (simp add: Run_tests_exec)
    from exec_no_summary [OF run] show ?none
      by simp
  qed
qed

theorem outcome_counted_once_witness:
  "Run_tests (\<lambda>t. Inr ''suite'') example_memory
     (example_processor True (Some \<lparr>Passed = 0, Failed = 0, Skipped = 0\<rparr>) [None, Some True])
     [Spawn 0, Spawn 1, Begin 1, Begin 0, Cleanup 1, Return 0 False False, Cleanup 0,
      Cleanup 1, Cleanup 0] =
   Some example_skipped
   \<and> counters example_skipped = Some \<lparr>Passed = 1, Failed = 0, Skipped = 1\<rparr>
   \<and> incs 0 example_skipped = [IncPassed_call]
   \<and> incs 1 example_skipped = [IncSkipped_call]
   \<and> runs 1 example_skipped = []
   \<and> Run_tests (\<lambda>t. Inr ''suite'') example_memory (example_processor True None [None])
        [Spawn 0, Begin 0, Return 0 False False, Cleanup 0] = Some example_uncounted
   \<and> counters example_uncounted = None
   \<and> incs 0 example_uncounted = []
   \<and> tally IncPassed_call example_uncounted = 0"
proof -
  have fin: "phase (ts example_skipped ! 0) = Done \<and> phase (ts example_skipped ! 1) = Done
      \<and> verdict (ts example_skipped ! 0) = IncPassed_call
      \<and> counters example_skipped = Some \<lparr>Passed = 1, Failed = 0, Skipped = 1\<rparr>"
    by (simp add: example_skipped_def verdict_def)
  have skip: "explicit_Skip (example_suite [None, Some True] ! 1)"
    by (simp add: example_suite_2 explicit_Skip_def example_test_def)
  have len: "length (example_suite [None, Some True]) = 2"
    by (simp add: example_suite_2)
  have summ: "summary (example_processor True (Some \<lparr>Passed = 0, Failed = 0, Skipped = 0\<rparr>)
      [None, Some True]) = Some \<lparr>Passed = 0, Failed = 0, Skipped = 0\<rparr>"
    by (simp add: example_processor_def)
  from outcome_counted_once [OF example_run_skipped, THEN conjunct1, rule_format, OF summ,
      unfolded example_instances len]
  have once: "\<forall>k<2. length (incs k example_skipped) \<le> 1
          \<and> (phase (ts example_skipped ! k) = Done \<longrightarrow>
                incs k example_skipped = [verdict (ts example_skipped ! k)])
          \<and> (phase (ts example_skipped ! k) = NotStarted \<or> phase (ts example_skipped ! k) = Spawned
               \<or> phase (ts example_skipped ! k) = Running \<longrightarrow> incs k example_skipped = [])"
    and skipped: "\<forall>k<2. explicit_Skip (example_suite [None, Some True] ! k)
          \<and> phase (ts example_skipped ! k) = Done \<longrightarrow>
          incs k example_skipped = [IncSkipped_call] \<and> runs k example_skipped = []"
    by blast+
  from fin once [THEN spec, of 0] have "incs 0 example_skipped = [IncPassed_call]"
    by auto
  moreover from fin skip skipped [THEN spec, of 1]
  have "incs 1 example_skipped = [IncSkipped_call] \<and> runs 1 example_skipped = []"
    by auto
  moreover
  have none: "summary (example_processor True None [None]) = None"
    by (simp add: example_processor_def)
  have one: "length (example_suite [None]) = 1"
    by (simp add: example_suite_def instances_def scenarios_def example_test_def)
  from outcome_counted_once [OF example_run_uncounted, THEN conjunct2, rule_format, OF none,
      unfolded example_instances one]
  have "counters example_uncounted = None \<and> incs 0 example_uncounted = []
      \<and> tally IncPassed_call example_uncounted = 0"
    by simp
  ultimately show ?thesis
    using fin example_run_skipped example_run_uncounted by blast
qed

text \<open>
  The claim as first stated fails in a run without a summary: the summary cleanup is
  not registered, and an instance that runs and passes finishes without any increment.
\<close>

theorem outcome_counted_once_counterexample:
  "Run_tests (\<lambda>t. Inr ''suite'') example_memory (example_processor True None [None])
     [Spawn 0, Begin 0, Return 0 False False, Cleanup 0]
   = Some \<lparr>shouldFailFast = False, counters = None,
           ts = [\<lparr>phase = Done, t_failed = False, t_skipped = False, t_cleanup = []\<rparr>],
           calls = [(0, Parallel_call), (0, Load_call False),
                    (0, processor_Run_call \<lparr>Id = 1, ScenarioId = 1, Metadata = ''meta''\<rparr>)]\<rparr>"
  by (simp add: example_Run_tests example_suite_def instances_def scenarios_def example_defs)

subsection \<open>Fail-fast\<close>

text \<open>
  Claim C3. Take a run of the tests of a processor with fail-fast configured, any state
  \<open>st\<close> it reaches and any later state \<open>st'\<close>, whatever the order of the steps of the
  instances. If the flag is set in \<open>st\<close> it is set in \<open>st'\<close>. An instance stores to the flag
  in its last cleanup and nowhere else: before it is finished it has made no store, and
  once it is finished and reports failed, it has stored and the flag is set. An instance
  that has not yet come to its skip decisions when the flag is set ends skipped and not
  failed, without a call of its processor, and with a summary it increments the skipped
  counter only. An instance inside its processor can end with any outcome whether the
  flag is set or not; the outcome it ended with is what its test reports from then on,
  and with a summary what it counts once it is finished.
\<close>

theorem fail_fast:
  assumes "Execution_FailFast (config p)"
    and "Run_tests names_Test mem p as = Some st"
    and "Run_tests names_Test mem p (as @ bs) = Some st'"
    and "k < length (fst (schedule names_Test mem 0 (tests p)))"
  shows "(shouldFailFast st \<longrightarrow> shouldFailFast st')
    \<and> (phase (ts st ! k) = Done \<and> t_failed (ts st ! k) \<longrightarrow>
          shouldFailFast st \<and> Store_call \<in> set (calls_of k st))
    \<and> (phase (ts st ! k) \<noteq> Done \<longrightarrow> Store_call \<notin> set (calls_of k st))
    \<and> (shouldFailFast st \<and> (phase (ts st ! k) = NotStarted \<or> phase (ts st ! k) = Spawned)
          \<and> phase (ts st' ! k) = Done \<longrightarrow>
          t_skipped (ts st' ! k) \<and> \<not> t_failed (ts st' ! k) \<and> runs k st' = []
          \<and> (summary p \<noteq> None \<longrightarrow> incs k st' = [IncSkipped_call]))
    \<and> (phase (ts st ! k) = Running \<longrightarrow>
          (\<forall>f sk. \<exists>st1. Run_tests names_Test mem p (as @ [Return k f sk]) = Some st1
              \<and> shouldFailFast st1 = shouldFailFast st)
          \<and> (\<forall>f sk cs st2. Run_tests names_Test mem p (as @ Return k f sk # cs) = Some st2 \<longrightarrow>
                t_failed (ts st2 ! k) = f \<and> t_skipped (ts st2 ! k) = sk
                \<and> (phase (ts st2 ! k) = Done \<and> summary p \<noteq> None \<longrightarrow>
                      incs k st2 = [verdict (ts st2 ! k)])))"
proof -
  let ?insts = "fst (schedule names_Test mem 0 (tests p))"
  have run: "exec True ?insts as (start_state (summary p) (length ?insts)) = Some st"
    using assms(1,2) by (simp add: Run_tests_exec)
  have rest: "exec True ?insts bs st = Some st'"
    using assms(1,3) run by (simp add: Run_tests_exec exec_append)
  have later: "Run_tests names_Test mem p (as @ cs) = exec True ?insts cs st" for cs
    using assms(1) run by (simp add: Run_tests_exec exec_append)
  show ?thesis
    unfolding later exec_single
    by (rule exec_flag_protocol [OF run rest assms(4)])
qed

theorem fail_fast_witness:
  "Run_tests (\<lambda>t. Inr ''suite'') example_memory
     (example_processor True (Some \<lparr>Passed = 0, Failed = 0, Skipped = 0\<rparr>) [None, None, None])
     [Spawn 0, Spawn 1, Begin 0, Begin 1, Return 0 True False, Cleanup 0, Cleanup 0] =
   Some example_midrun
   \<and> Run_tests (\<lambda>t. Inr ''suite'') example_memory
     (example_processor True (Some \<lparr>Passed = 0, Failed = 0, Skipped = 0\<rparr>) [None, None, None])
     ([Spawn 0, Spawn 1, Begin 0, Begin 1, Return 0 True False, Cleanup 0, Cleanup 0] @
      [Return 1 False False, Cleanup 1, Cleanup 1, Spawn 2, Begin 2, Cleanup 2, Cleanup 2]) =
   Some example_final
   \<and> shouldFailFast example_midrun \<and> shouldFailFast example_final
   \<and> Store_call \<in> set (calls_of 0 example_midrun)
   \<and> Store_call \<notin> set (calls_of 1 example_midrun)
   \<and> t_skipped (ts example_final ! 2) \<and> \<not> t_failed (ts example_final ! 2)
   \<and> runs 2 example_final = [] \<and> incs 2 example_final = [IncSkipped_call]
   \<and> \<not> t_failed (ts example_final ! 1) \<and> \<not> t_skipped (ts example_final ! 1)
   \<and> incs 1 example_final = [IncPassed_call]"
proof -
  let ?p = "example_processor True (Some \<lparr>Passed = 0, Failed = 0, Skipped = 0\<rparr>)
      [None, None, None]"
  have given: "shouldFailFast example_midrun
      \<and> phase (ts example_midrun ! 0) = Done \<and> t_failed (ts example_midrun ! 0)
      \<and> phase (ts example_midrun ! 1) = Running \<and> phase (ts example_midrun ! 2) = NotStarted
      \<and> phase (ts example_final ! 1) = Done \<and> phase (ts example_final ! 2) = Done"
    by (simp add: example_midrun_def example_final_def)
  have conf: "Execution_FailFast (config ?p)" and summ: "summary ?p \<noteq> None"
    by (simp_all add: example_processor_def)
  have len: "length (example_suite [None, None, None]) = 3"
    by (simp add: example_suite_3)
  have k: "0 < length (fst (schedule (\<lambda>t. Inr ''suite'') example_memory 0 (tests ?p)))"
    "1 < length (fst (schedule (\<lambda>t. Inr ''suite'') example_memory 0 (tests ?p)))"
    "2 < length (fst (schedule (\<lambda>t. Inr ''suite'') example_memory 0 (tests ?p)))"
    by (simp_all add: example_instances len)
  have returns: "Run_tests (\<lambda>t. Inr ''suite'') example_memory ?p
      ([Spawn 0, Spawn 1, Begin 0, Begin 1, Return 0 True False, Cleanup 0, Cleanup 0] @
       Return 1 False False # [Cleanup 1, Cleanup 1, Spawn 2, Begin 2, Cleanup 2, Cleanup 2]) =
      Some example_final"
    using example_run_all by simp
  from fail_fast [OF conf example_run_first example_run_all k(1)]
    fail_fast [OF conf example_run_first example_run_all k(2)]
    fail_fast [OF conf example_run_first example_run_all k(3)]
    given summ returns example_run_first example_run_all
  show ?thesis
    by (auto simp add: verdict_def)
qed

end
